theory Spec2Isabelle
  imports Main "HOL-Library.Word"
begin

section \<open>Strings of the host language\<close>

text \<open>
  A string of the source language is a sequence of 16-bit code units; \<open>length\<close>, indexing,
  \<open>includes\<close> and \<open>replace\<close> all count code units. \<open>js\<close> embeds an ASCII literal.
\<close>

type_synonym jschar = "16 word"
type_synonym jsstring = "jschar list"

definition ch :: "char \<Rightarrow> jschar" where
  "ch c = word_of_nat (of_char c)"

definition js :: "string \<Rightarrow> jsstring" where
  "js s = map ch s"

fun startsWith :: "jsstring \<Rightarrow> jsstring \<Rightarrow> bool" where
  "startsWith s [] = True"
| "startsWith [] (c # cs) = False"
| "startsWith (x # xs) (c # cs) = (x = c \<and> startsWith xs cs)"

text \<open>\<open>String.prototype.includes\<close>: the search string occurs at some position.\<close>

fun includes_js :: "jsstring \<Rightarrow> jsstring \<Rightarrow> bool" where
  "includes_js [] sub = (sub = [])"
| "includes_js (x # xs) sub = (startsWith (x # xs) sub \<or> includes_js xs sub)"

section \<open>Numbers\<close>

datatype jsnumber = NaN | PosInfinity | NegInfinity | Fin int int

function mk_fin :: "int \<Rightarrow> int \<Rightarrow> jsnumber" where
  "mk_fin m e = (if m = 0 then Fin 0 0 else if m mod 10 = 0 then mk_fin (m div 10) (e + 1) else Fin m e)"
  by pat_completeness auto
termination
  by (relation "measure (\<lambda>(m, e). nat \<bar>m\<bar>)") auto

declare mk_fin.simps [simp del]

definition is_digit :: "jschar \<Rightarrow> bool" where
  "is_digit c = (0x30 \<le> c \<and> c \<le> 0x39)"

definition digit_val :: "jschar \<Rightarrow> nat" where
  "digit_val c = unat c - 48"

definition digit_char :: "nat \<Rightarrow> jschar" where
  "digit_char d = word_of_nat (48 + d)"

definition nat_of_digits :: "jsstring \<Rightarrow> nat" where
  "nat_of_digits ds = foldl (\<lambda>a c. 10 * a + digit_val c) 0 ds"

fun digits_of :: "nat \<Rightarrow> jsstring" where
  "digits_of n = (if n < 10 then [digit_char n] else digits_of (n div 10) @ [digit_char (n mod 10)])"

declare digits_of.simps [simp del]

definition positive_toString :: "nat \<Rightarrow> int \<Rightarrow> jsstring" where
  "positive_toString s e =
     (let ds = digits_of s; k = int (length ds); n = k + e in
      if k \<le> n \<and> n \<le> 21 then ds @ replicate (nat (n - k)) 0x30
      else if 0 < n \<and> n \<le> 21 then take (nat n) ds @ [0x2E] @ drop (nat n) ds
      else if - 6 < n \<and> n \<le> 0 then [0x30, 0x2E] @ replicate (nat (- n)) 0x30 @ ds
      else (let ex = (if n - 1 < 0 then [0x2D] else [0x2B]) @ digits_of (nat \<bar>n - 1\<bar>) in
            if k = 1 then ds @ [0x65] @ ex
            else take 1 ds @ [0x2E] @ drop 1 ds @ [0x65] @ ex))"

definition Number_toString :: "jsnumber \<Rightarrow> jsstring" where
  "Number_toString x =
     (case x of
        NaN \<Rightarrow> js ''NaN''
      | PosInfinity \<Rightarrow> js ''Infinity''
      | NegInfinity \<Rightarrow> js ''-Infinity''
      | Fin m e \<Rightarrow>
          if m = 0 then js ''0''
          else (if m < 0 then js ''-'' else []) @ positive_toString (nat \<bar>m\<bar>) e)"


definition parse_frac :: "jsstring \<Rightarrow> (jsstring \<times> jsstring) option" where
  "parse_frac s =
     (case s of
        [] \<Rightarrow> Some ([], s)
      | c # r \<Rightarrow>
          if c = 0x2E
          then (if takeWhile is_digit r = [] then None
                else Some (takeWhile is_digit r, dropWhile is_digit r))
          else Some ([], s))"

definition parse_sign :: "jsstring \<Rightarrow> int \<times> jsstring" where
  "parse_sign s =
     (case s of
        [] \<Rightarrow> (1, s)
      | c # r \<Rightarrow> if c = 0x2B then (1, r) else if c = 0x2D then (- 1, r) else (1, s))"

definition parse_exp :: "jsstring \<Rightarrow> (int \<times> jsstring) option" where
  "parse_exp s =
     (case s of
        [] \<Rightarrow> Some (0, s)
      | c # r \<Rightarrow>
          if c = 0x65 \<or> c = 0x45
          then (case parse_sign r of (sg, r1) \<Rightarrow>
                  if takeWhile is_digit r1 = [] then None
                  else Some (sg * int (nat_of_digits (takeWhile is_digit r1)), dropWhile is_digit r1))
          else Some (0, s))"

definition parse_int :: "jsstring \<Rightarrow> (jsstring \<times> jsstring) option" where
  "parse_int s =
     (case s of
        [] \<Rightarrow> None
      | c # r \<Rightarrow>
          if \<not> is_digit c then None
          else if c = 0x30 then Some ([c], r)
          else Some (c # takeWhile is_digit r, dropWhile is_digit r))"

definition parse_unsigned :: "jsstring \<Rightarrow> (nat \<times> int \<times> jsstring) option" where
  "parse_unsigned s =
     (case parse_int s of
        None \<Rightarrow> None
      | Some (ip, s2) \<Rightarrow>
          (case parse_frac s2 of
             None \<Rightarrow> None
           | Some (fd, s3) \<Rightarrow>
               (case parse_exp s3 of
                  None \<Rightarrow> None
                | Some (ex, s4) \<Rightarrow> Some (nat_of_digits (ip @ fd), ex - int (length fd), s4))))"

definition parse_number :: "jsstring \<Rightarrow> (jsnumber \<times> jsstring) option" where
  "parse_number s =
     (case s of
        [] \<Rightarrow> None
      | c # r \<Rightarrow>
          if c = 0x2D
          then (case parse_unsigned r of
                  None \<Rightarrow> None
                | Some (d, ex, rest) \<Rightarrow> Some (mk_fin (- int d) ex, rest))
          else (case parse_unsigned s of
                  None \<Rightarrow> None
                | Some (d, ex, rest) \<Rightarrow> Some (mk_fin (int d) ex, rest)))"

definition num_ok :: "jsnumber \<Rightarrow> bool" where
  "num_ok x = (case x of Fin m e \<Rightarrow> (if m = 0 then e = 0 else m mod 10 \<noteq> 0) | _ \<Rightarrow> False)"

section \<open>JSON\<close>

datatype json =
    JNull
  | JBool bool
  | JNumber jsnumber
  | JString jsstring
  | JArray "json list"
  | JObject "(jsstring \<times> json) list"

subsection \<open>JSON.stringify\<close>

definition hex_char :: "nat \<Rightarrow> jschar" where
  "hex_char d = (if d < 10 then word_of_nat (48 + d) else word_of_nat (87 + d))"

definition UnicodeEscape :: "jschar \<Rightarrow> jsstring" where
  "UnicodeEscape c =
     [0x5C, 0x75, hex_char (unat c div 4096), hex_char (unat c div 256 mod 16),
      hex_char (unat c div 16 mod 16), hex_char (unat c mod 16)]"

definition is_lead :: "jschar \<Rightarrow> bool" where
  "is_lead c = (0xD800 \<le> c \<and> c \<le> 0xDBFF)"

definition is_trail :: "jschar \<Rightarrow> bool" where
  "is_trail c = (0xDC00 \<le> c \<and> c \<le> 0xDFFF)"

definition quote_unit :: "jschar \<Rightarrow> jsstring" where
  "quote_unit c =
     (if c = 0x08 then [0x5C, 0x62]
      else if c = 0x09 then [0x5C, 0x74]
      else if c = 0x0A then [0x5C, 0x6E]
      else if c = 0x0C then [0x5C, 0x66]
      else if c = 0x0D then [0x5C, 0x72]
      else if c = 0x22 then [0x5C, 0x22]
      else if c = 0x5C then [0x5C, 0x5C]
      else if c < 0x20 \<or> is_lead c \<or> is_trail c then UnicodeEscape c
      else [c])"

fun quote_units :: "jsstring \<Rightarrow> jsstring" where
  "quote_units [] = []"
| "quote_units [c] = quote_unit c"
| "quote_units (c # d # cs) =
     (if is_lead c \<and> is_trail d then c # d # quote_units cs
      else quote_unit c @ quote_units (d # cs))"

definition QuoteJSONString :: "jsstring \<Rightarrow> jsstring" where
  "QuoteJSONString s = [0x22] @ quote_units s @ [0x22]"

fun JSON_stringify :: "json \<Rightarrow> jsstring"
  and stringify_elements :: "json list \<Rightarrow> jsstring"
  and stringify_members :: "(jsstring \<times> json) list \<Rightarrow> jsstring" where
  "JSON_stringify JNull = js ''null''"
| "JSON_stringify (JBool b) = (if b then js ''true'' else js ''false'')"
| "JSON_stringify (JNumber n) = (case n of Fin m e \<Rightarrow> Number_toString n | _ \<Rightarrow> js ''null'')"
| "JSON_stringify (JString s) = QuoteJSONString s"
| "JSON_stringify (JArray xs) = [0x5B] @ stringify_elements xs @ [0x5D]"
| "JSON_stringify (JObject kvs) = [0x7B] @ stringify_members kvs @ [0x7D]"
| "stringify_elements [] = []"
| "stringify_elements [x] = JSON_stringify x"
| "stringify_elements (x # y # ys) = JSON_stringify x @ [0x2C] @ stringify_elements (y # ys)"
| "stringify_members [] = []"
| "stringify_members [(k, v)] = QuoteJSONString k @ [0x3A] @ JSON_stringify v"
| "stringify_members ((k, v) # p # ps) =
     QuoteJSONString k @ [0x3A] @ JSON_stringify v @ [0x2C] @ stringify_members (p # ps)"

subsection \<open>JSON.parse\<close>

datatype exn = SyntaxError | TypeError

definition is_json_ws :: "jschar \<Rightarrow> bool" where
  "is_json_ws c = (c = 0x09 \<or> c = 0x0A \<or> c = 0x0D \<or> c = 0x20)"

definition skip_ws :: "jsstring \<Rightarrow> jsstring" where
  "skip_ws s = dropWhile is_json_ws s"

definition hex_val :: "jschar \<Rightarrow> nat option" where
  "hex_val c =
     (if 0x30 \<le> c \<and> c \<le> 0x39 then Some (unat c - 48)
      else if 0x61 \<le> c \<and> c \<le> 0x66 then Some (unat c - 87)
      else if 0x41 \<le> c \<and> c \<le> 0x46 then Some (unat c - 55)
      else None)"

definition hex4 :: "jschar \<Rightarrow> jschar \<Rightarrow> jschar \<Rightarrow> jschar \<Rightarrow> jschar option" where
  "hex4 a b c d =
     (case (hex_val a, hex_val b, hex_val c, hex_val d) of
        (Some x, Some y, Some z, Some w) \<Rightarrow> Some (word_of_nat (4096 * x + 256 * y + 16 * z + w))
      | _ \<Rightarrow> None)"

definition unescape :: "jschar \<Rightarrow> jschar option" where
  "unescape e =
     (if e = 0x22 then Some 0x22
      else if e = 0x5C then Some 0x5C
      else if e = 0x2F then Some 0x2F
      else if e = 0x62 then Some 0x08
      else if e = 0x66 then Some 0x0C
      else if e = 0x6E then Some 0x0A
      else if e = 0x72 then Some 0x0D
      else if e = 0x74 then Some 0x09
      else None)"

definition cons_result :: "jschar \<Rightarrow> (jsstring \<times> jsstring) option \<Rightarrow> (jsstring \<times> jsstring) option" where
  "cons_result c r = (case r of None \<Rightarrow> None | Some (s, rest) \<Rightarrow> Some (c # s, rest))"

fun parse_chars :: "jsstring \<Rightarrow> (jsstring \<times> jsstring) option" where
  "parse_chars [] = None"
| "parse_chars (c # cs) =
     (if c = 0x22 then Some ([], cs)
      else if c = 0x5C then
        (case cs of
           [] \<Rightarrow> None
         | e # r \<Rightarrow>
             if e = 0x75 then
               (case r of
                  a # b # c' # d # r' \<Rightarrow>
                    (case hex4 a b c' d of None \<Rightarrow> None | Some u \<Rightarrow> cons_result u (parse_chars r'))
                | _ \<Rightarrow> None)
             else (case unescape e of None \<Rightarrow> None | Some u \<Rightarrow> cons_result u (parse_chars r)))
      else if c < 0x20 then None
      else cons_result c (parse_chars cs))"

primrec put_member :: "(jsstring \<times> json) list \<Rightarrow> jsstring \<Rightarrow> json \<Rightarrow> (jsstring \<times> json) list" where
  "put_member [] k v = [(k, v)]"
| "put_member (p # ps) k v = (if fst p = k then (k, v) # ps else p # put_member ps k v)"

fun parse_value :: "nat \<Rightarrow> jsstring \<Rightarrow> (json \<times> jsstring) option"
  and parse_elements :: "nat \<Rightarrow> jsstring \<Rightarrow> json list \<Rightarrow> (json \<times> jsstring) option"
  and parse_members :: "nat \<Rightarrow> jsstring \<Rightarrow> (jsstring \<times> json) list \<Rightarrow> (json \<times> jsstring) option" where
  "parse_value 0 s = None"
| "parse_value (Suc n) s =
     (case skip_ws s of
        [] \<Rightarrow> None
      | c # cs \<Rightarrow>
          if c = 0x7B then
            (case skip_ws cs of
               [] \<Rightarrow> None
             | d # ds \<Rightarrow> if d = 0x7D then Some (JObject [], ds) else parse_members n (d # ds) [])
          else if c = 0x5B then
            (case skip_ws cs of
               [] \<Rightarrow> None
             | d # ds \<Rightarrow> if d = 0x5D then Some (JArray [], ds) else parse_elements n (d # ds) [])
          else if c = 0x22 then
            (case parse_chars cs of None \<Rightarrow> None | Some (str, r) \<Rightarrow> Some (JString str, r))
          else if startsWith (c # cs) (js ''true'') then Some (JBool True, drop 4 (c # cs))
          else if startsWith (c # cs) (js ''false'') then Some (JBool False, drop 5 (c # cs))
          else if startsWith (c # cs) (js ''null'') then Some (JNull, drop 4 (c # cs))
          else (case parse_number (c # cs) of None \<Rightarrow> None | Some (x, r) \<Rightarrow> Some (JNumber x, r)))"
| "parse_elements 0 s acc = None"
| "parse_elements (Suc n) s acc =
     (case parse_value n s of
        None \<Rightarrow> None
      | Some (v, r) \<Rightarrow>
          (case skip_ws r of
             [] \<Rightarrow> None
           | c # cs \<Rightarrow>
               if c = 0x2C then parse_elements n cs (acc @ [v])
               else if c = 0x5D then Some (JArray (acc @ [v]), cs)
               else None))"
| "parse_members 0 s acc = None"
| "parse_members (Suc n) s acc =
     (case skip_ws s of
        [] \<Rightarrow> None
      | q # qs \<Rightarrow>
          if q \<noteq> 0x22 then None
          else
            (case parse_chars qs of
               None \<Rightarrow> None
             | Some (k, r) \<Rightarrow>
                 (case skip_ws r of
                    [] \<Rightarrow> None
                  | c # cs \<Rightarrow>
                      if c \<noteq> 0x3A then None
                      else
                        (case parse_value n cs of
                           None \<Rightarrow> None
                         | Some (v, r') \<Rightarrow>
                             (case skip_ws r' of
                                [] \<Rightarrow> None
                              | c' # cs' \<Rightarrow>
                                  if c' = 0x2C then parse_members n cs' (put_member acc k v)
                                  else if c' = 0x7D then Some (JObject (put_member acc k v), cs')
                                  else None)))))"

definition JSON_parse :: "jsstring \<Rightarrow> exn + json" where
  "JSON_parse s =
     (case parse_value (Suc (length s + length s)) s of
        None \<Rightarrow> Inl SyntaxError
      | Some (v, r) \<Rightarrow> if skip_ws r = [] then Inr v else Inl SyntaxError)"

section \<open>Conversions of the host language\<close>

text \<open>\<open>typeof\<close> on the values above: \<open>null\<close>, arrays and objects are \<open>"object"\<close>.\<close>

fun typeof_js :: "json \<Rightarrow> jsstring" where
  "typeof_js JNull = js ''object''"
| "typeof_js (JBool b) = js ''boolean''"
| "typeof_js (JNumber n) = js ''number''"
| "typeof_js (JString s) = js ''string''"
| "typeof_js (JArray xs) = js ''object''"
| "typeof_js (JObject kvs) = js ''object''"

text \<open>
  \<open>ToString\<close>, the conversion \<open>setItem\<close> applies to its value argument. An array is joined
  with commas (\<open>null\<close> elements are empty); a plain object is \<open>[object Object]\<close>, unless it
  has an own property \<open>toString\<close>, which (not being callable) makes the conversion throw.
\<close>

fun ToString :: "json \<Rightarrow> exn + jsstring"
  and join_elements :: "json list \<Rightarrow> exn + jsstring" where
  "ToString JNull = Inr (js ''null'')"
| "ToString (JBool b) = Inr (if b then js ''true'' else js ''false'')"
| "ToString (JNumber n) = Inr (Number_toString n)"
| "ToString (JString s) = Inr s"
| "ToString (JArray xs) = join_elements xs"
| "ToString (JObject kvs) =
     (if js ''toString'' \<in> fst ` set kvs then Inl TypeError else Inr (js ''[object Object]''))"
| "join_elements [] = Inr []"
| "join_elements [x] = (if x = JNull then Inr [] else ToString x)"
| "join_elements (x # y # ys) =
     (case (if x = JNull then Inr [] else ToString x) of
        Inl e \<Rightarrow> Inl e
      | Inr s \<Rightarrow> (case join_elements (y # ys) of Inl e \<Rightarrow> Inl e | Inr r \<Rightarrow> Inr (s @ js '','' @ r)))"

text \<open>
  \<open>Number(string)\<close>: white space is trimmed, the empty string is \<open>0\<close>, then a binary, octal
  or hexadecimal integer, or a signed decimal literal (\<open>Infinity\<close>, digits with an optional
  fraction and exponent); anything else is \<open>NaN\<close>.
\<close>

definition is_str_ws :: "jschar \<Rightarrow> bool" where
  "is_str_ws c =
     (c \<in> {0x09, 0x0A, 0x0B, 0x0C, 0x0D, 0x20, 0xA0, 0x1680, 0x2028, 0x2029, 0x202F, 0x205F, 0x3000, 0xFEFF}
      \<or> (0x2000 \<le> c \<and> c \<le> 0x200A))"

definition trim_ws :: "jsstring \<Rightarrow> jsstring" where
  "trim_ws s = rev (dropWhile is_str_ws (rev (dropWhile is_str_ws s)))"

definition radix_value :: "nat \<Rightarrow> jsstring \<Rightarrow> nat option" where
  "radix_value b ds =
     (if ds \<noteq> [] \<and> (\<forall>c \<in> set ds. case hex_val c of Some d \<Rightarrow> d < b | None \<Rightarrow> False)
      then Some (foldl (\<lambda>a c. b * a + (case hex_val c of Some d \<Rightarrow> d | None \<Rightarrow> 0)) 0 ds)
      else None)"

definition StrDecimalLiteral :: "jsstring \<Rightarrow> jsnumber" where
  "StrDecimalLiteral t =
     (case parse_sign t of (sg, u) \<Rightarrow>
        if u = js ''Infinity'' then (if sg < 0 then NegInfinity else PosInfinity)
        else
          (let ip = takeWhile is_digit u;
               r1 = dropWhile is_digit u;
               fd = (case r1 of [] \<Rightarrow> [] | c # r \<Rightarrow> if c = 0x2E then takeWhile is_digit r else []);
               r2 = (case r1 of [] \<Rightarrow> [] | c # r \<Rightarrow> if c = 0x2E then dropWhile is_digit r else r1)
           in if ip = [] \<and> fd = [] then NaN
              else (case parse_exp r2 of
                      None \<Rightarrow> NaN
                    | Some (ex, r3) \<Rightarrow>
                        if r3 \<noteq> [] then NaN
                        else mk_fin (sg * int (nat_of_digits (ip @ fd))) (ex - int (length fd)))))"

definition StringToNumber :: "jsstring \<Rightarrow> jsnumber" where
  "StringToNumber s =
     (let t = trim_ws s in
      if t = [] then Fin 0 0
      else
        (case t of
           c0 # c1 # ds \<Rightarrow>
             if c0 = 0x30 \<and> (c1 = 0x78 \<or> c1 = 0x58)
             then (case radix_value 16 ds of None \<Rightarrow> NaN | Some v \<Rightarrow> mk_fin (int v) 0)
             else if c0 = 0x30 \<and> (c1 = 0x6F \<or> c1 = 0x4F)
             then (case radix_value 8 ds of None \<Rightarrow> NaN | Some v \<Rightarrow> mk_fin (int v) 0)
             else if c0 = 0x30 \<and> (c1 = 0x62 \<or> c1 = 0x42)
             then (case radix_value 2 ds of None \<Rightarrow> NaN | Some v \<Rightarrow> mk_fin (int v) 0)
             else StrDecimalLiteral t
         | _ \<Rightarrow> StrDecimalLiteral t))"

definition isNaN :: "jsnumber \<Rightarrow> bool" where
  "isNaN x = (x = NaN)"

text \<open>Addition of numbers, exact on finite ones.\<close>

fun num_add :: "jsnumber \<Rightarrow> jsnumber \<Rightarrow> jsnumber" where
  "num_add NaN y = NaN"
| "num_add x NaN = NaN"
| "num_add PosInfinity NegInfinity = NaN"
| "num_add NegInfinity PosInfinity = NaN"
| "num_add PosInfinity y = PosInfinity"
| "num_add x PosInfinity = PosInfinity"
| "num_add NegInfinity y = NegInfinity"
| "num_add x NegInfinity = NegInfinity"
| "num_add (Fin m1 e1) (Fin m2 e2) =
     mk_fin (m1 * 10 ^ nat (e1 - min e1 e2) + m2 * 10 ^ nat (e2 - min e1 e2)) (min e1 e2)"

text \<open>
  A time value is a number of milliseconds since the epoch, or \<open>None\<close> for the invalid
  date (\<open>NaN\<close>). \<open>TimeClip\<close> rejects what is not finite or beyond 8.64e15 and truncates.
\<close>

definition truncate_num :: "int \<Rightarrow> int \<Rightarrow> int" where
  "truncate_num m e = (if 0 \<le> e then m * 10 ^ nat e else sgn m * (\<bar>m\<bar> div 10 ^ nat (- e)))"

definition TimeClip :: "jsnumber \<Rightarrow> int option" where
  "TimeClip x =
     (case x of
        Fin m e \<Rightarrow>
          if 8640000000000000 * 10 ^ nat (- e) < \<bar>m\<bar> * 10 ^ nat e then None
          else Some (truncate_num m e)
      | _ \<Rightarrow> None)"

definition number_of_time :: "int option \<Rightarrow> jsnumber" where
  "number_of_time tv = (case tv of None \<Rightarrow> NaN | Some t \<Rightarrow> mk_fin t 0)"

section \<open>The host: clock, calendar and date parsing\<close>

text \<open>
  What the module uses of \<open>Date\<close>. \<open>Date_now\<close> is the time value of \<open>new Date()\<close> during the
  call. The getters read a field of a time value in local time; a setter takes a time
  value and the new field and returns the new time value, as \<open>setHours\<close> and its siblings
  do. They depend on the time zone of the host, and \<open>Date.parse\<close> on its implementation,
  so they are parameters of the model.
\<close>

record host =
  Date_now :: int
  getHours :: "int \<Rightarrow> int"
  setHours :: "int \<Rightarrow> jsnumber \<Rightarrow> int option"
  getDate :: "int \<Rightarrow> int"
  setDate :: "int \<Rightarrow> jsnumber \<Rightarrow> int option"
  getMinutes :: "int \<Rightarrow> int"
  setMinutes :: "int \<Rightarrow> jsnumber \<Rightarrow> int option"
  getSeconds :: "int \<Rightarrow> int"
  setSeconds :: "int \<Rightarrow> jsnumber \<Rightarrow> int option"
  Date_parse :: "jsstring \<Rightarrow> int option"

text \<open>
  \<open>new Date(value)\<close> for a value that \<open>JSON.parse\<close> returned: a string is parsed, an array
  or object is converted to a string and parsed, anything else is converted to a number
  and clipped.
\<close>

fun new_Date :: "host \<Rightarrow> json \<Rightarrow> exn + int option" where
  "new_Date h JNull = Inr (TimeClip (Fin 0 0))"
| "new_Date h (JBool b) = Inr (TimeClip (if b then Fin 1 0 else Fin 0 0))"
| "new_Date h (JNumber n) = Inr (TimeClip n)"
| "new_Date h (JString s) = Inr (Date_parse h s)"
| "new_Date h v = (case ToString v of Inl e \<Rightarrow> Inl e | Inr s \<Rightarrow> Inr (Date_parse h s))"

text \<open>
  A host in the UTC time zone, for the examples. Its \<open>Date.parse\<close> is given by the caller.
\<close>

definition DateFromTime :: "int \<Rightarrow> int" where
  "DateFromTime t =
     (let z = t div 86400000 + 719468;
          doe = z - (z div 146097) * 146097;
          yoe = (doe - doe div 1460 + doe div 36524 - doe div 146096) div 365;
          doy = doe - (365 * yoe + yoe div 4 - yoe div 100);
          mp = (5 * doy + 2) div 153
      in doy - (153 * mp + 2) div 5 + 1)"

definition set_field :: "int \<Rightarrow> int \<Rightarrow> int \<Rightarrow> jsnumber \<Rightarrow> int option" where
  "set_field unit old t x =
     (case x of
        Fin m e \<Rightarrow> TimeClip (mk_fin (t - old * unit + truncate_num m e * unit) 0)
      | _ \<Rightarrow> None)"

definition utc_host :: "int \<Rightarrow> (jsstring \<Rightarrow> int option) \<Rightarrow> host" where
  "utc_host now dp =
     \<lparr>Date_now = now,
      getHours = (\<lambda>t. t div 3600000 mod 24),
      setHours = (\<lambda>t x. set_field 3600000 (t div 3600000 mod 24) t x),
      getDate = DateFromTime,
      setDate = (\<lambda>t x. set_field 86400000 (DateFromTime t) t x),
      getMinutes = (\<lambda>t. t div 60000 mod 60),
      setMinutes = (\<lambda>t x. set_field 60000 (t div 60000 mod 60) t x),
      getSeconds = (\<lambda>t. t div 1000 mod 60),
      setSeconds = (\<lambda>t x. set_field 1000 (t div 1000 mod 60) t x),
      Date_parse = dp\<rparr>"

section \<open>Values that survive serialisation\<close>

text \<open>
  A value is JSON-serialisable when every number in it is finite and in normal form and
  no object has two members with the same key.
\<close>

fun json_ok :: "json \<Rightarrow> bool"
  and elements_ok :: "json list \<Rightarrow> bool"
  and members_ok :: "(jsstring \<times> json) list \<Rightarrow> bool" where
  "json_ok JNull = True"
| "json_ok (JBool b) = True"
| "json_ok (JNumber n) = num_ok n"
| "json_ok (JString s) = True"
| "json_ok (JArray xs) = elements_ok xs"
| "json_ok (JObject kvs) = (distinct (map fst kvs) \<and> members_ok kvs)"
| "elements_ok [] = True"
| "elements_ok (x # xs) = (json_ok x \<and> elements_ok xs)"
| "members_ok [] = True"
| "members_ok ((k, v) # ps) = (json_ok v \<and> members_ok ps)"

text \<open>What may follow a number in a JSON text, and what a value starts with.\<close>

definition no_digit :: "jsstring \<Rightarrow> bool" where
  "no_digit t = (case t of [] \<Rightarrow> True | c # _ \<Rightarrow> \<not> is_digit c)"

definition delim :: "jsstring \<Rightarrow> bool" where
  "delim t = (case t of [] \<Rightarrow> True | c # _ \<Rightarrow> \<not> is_digit c \<and> c \<noteq> 0x2E \<and> c \<noteq> 0x65 \<and> c \<noteq> 0x45)"

definition value_start :: "jschar \<Rightarrow> bool" where
  "value_start c = (\<not> is_json_ws c \<and> c \<noteq> 0x5D \<and> c \<noteq> 0x7D)"

section \<open>The Storage backend\<close>

text \<open>
  A \<open>Storage\<close> object (\<open>localStorage\<close>, \<open>sessionStorage\<close>) is a list of key/value pairs of
  strings, in the order in which the keys were first set. Quota errors of \<open>setItem\<close> are not
  modelled.
\<close>

type_synonym Storage = "(jsstring \<times> jsstring) list"

definition getItem :: "Storage \<Rightarrow> jsstring \<Rightarrow> jsstring option" where
  "getItem S k = map_of S k"

primrec setItem :: "Storage \<Rightarrow> jsstring \<Rightarrow> jsstring \<Rightarrow> Storage" where
  "setItem [] k v = [(k, v)]"
| "setItem (p # ps) k v = (if fst p = k then (k, v) # ps else p # setItem ps k v)"

definition removeItem :: "Storage \<Rightarrow> jsstring \<Rightarrow> Storage" where
  "removeItem S k = filter (\<lambda>p. fst p \<noteq> k) S"

definition clear :: "Storage \<Rightarrow> Storage" where
  "clear S = []"

text \<open>
  \<open>Object.keys\<close> of a Storage object lists the stored keys that are visible as properties
  of the object. A stored key that is the name of a property of the prototype chain is
  not: \<open>getItem\<close> reads it and \<open>removeItem\<close> removes it, but the property of that name is the
  inherited one, and \<open>Object.keys\<close> leaves the key out. The names below are the properties
  of \<open>Storage.prototype\<close> and of \<open>Object.prototype\<close> that the standards define.
\<close>

definition prototype_properties :: "jsstring list" where
  "prototype_properties =
     map js
       [''length'', ''key'', ''getItem'', ''setItem'', ''removeItem'', ''clear'', ''constructor'',
        ''hasOwnProperty'', ''isPrototypeOf'', ''propertyIsEnumerable'', ''toLocaleString'',
        ''toString'', ''valueOf'', ''__proto__'', ''__defineGetter__'', ''__defineSetter__'',
        ''__lookupGetter__'', ''__lookupSetter__'']"

definition keys :: "Storage \<Rightarrow> jsstring list" where
  "keys S = filter (\<lambda>k. k \<notin> set prototype_properties) (map fst S)"

section \<open>The module state\<close>

datatype StorageType = LocalStorage | SessionStorage

datatype diagnostic = ConsoleWarn jsstring | ConsoleError jsstring

text \<open>
  The module-level variables \<open>DOMAIN\<close> and \<open>store\<close> (a reference to one of the two
  Storage objects of the host), the two Storage objects, and what was printed on the
  console.
\<close>

record state =
  DOMAIN :: jsstring
  store :: StorageType
  localStorage :: Storage
  sessionStorage :: Storage
  console :: "diagnostic list"

record LocalitConfig =
  domain :: "jsstring option"
  type :: "StorageType option"

definition backend :: "state \<Rightarrow> Storage" where
  "backend st = (case store st of LocalStorage \<Rightarrow> localStorage st | SessionStorage \<Rightarrow> sessionStorage st)"

definition with_backend :: "(Storage \<Rightarrow> Storage) \<Rightarrow> state \<Rightarrow> state" where
  "with_backend f st =
     (case store st of
        LocalStorage \<Rightarrow> st\<lparr>localStorage := f (localStorage st)\<rparr>
      | SessionStorage \<Rightarrow> st\<lparr>sessionStorage := f (sessionStorage st)\<rparr>)"

text \<open>
  The state when the module has been loaded: \<open>DOMAIN = ""\<close>, \<open>store = localStorage\<close>;
  the two Storage objects hold whatever the host has kept.
\<close>

definition initial :: "Storage \<Rightarrow> Storage \<Rightarrow> state" where
  "initial ls ss = \<lparr>DOMAIN = [], store = LocalStorage, localStorage = ls, sessionStorage = ss, console = []\<rparr>"

section \<open>Key derivation\<close>

definition EXPIRE :: jsstring where
  "EXPIRE = js ''_expiration_date''"

definition getFullKey :: "state \<Rightarrow> jsstring \<Rightarrow> jsstring" where
  "getFullKey st key = DOMAIN st @ js ''_'' @ key"

definition getExpirationKey :: "state \<Rightarrow> jsstring \<Rightarrow> jsstring" where
  "getExpirationKey st key = getFullKey st key @ EXPIRE"

section \<open>The expiration subsystem\<close>

definition timeFormats :: "host \<Rightarrow> int \<Rightarrow> (jschar \<times> (jsnumber \<Rightarrow> int option)) list" where
  "timeFormats h expirationDate =
     [(ch CHR ''h'', \<lambda>time. setHours h expirationDate (num_add (mk_fin (getHours h expirationDate) 0) time)),
      (ch CHR ''d'', \<lambda>time. setDate h expirationDate (num_add (mk_fin (getDate h expirationDate) 0) time)),
      (ch CHR ''m'', \<lambda>time. setMinutes h expirationDate (num_add (mk_fin (getMinutes h expirationDate) 0) time)),
      (ch CHR ''s'', \<lambda>time. setSeconds h expirationDate (num_add (mk_fin (getSeconds h expirationDate) 0) time))]"

definition expiration_warning :: jsstring where
  "expiration_warning =
     js ''Localit: provide a valid expiration time format (e.g. '' @ [0x27] @ js ''20h'' @ [0x27] @
     js '', '' @ [0x27] @ js ''160s'' @ [0x27] @ js '', '' @ [0x27] @ js ''15d'' @ [0x27] @
     js ''). Your expiration date hasn'' @ [0x27] @ js ''t been saved.''"

text \<open>
  \<open>timeKey\<close> is the last code unit (absent for the empty string); \<open>replace\<close> with a string
  pattern removes its first occurrence only.
\<close>

definition setExpiration :: "host \<Rightarrow> state \<Rightarrow> jsstring \<Rightarrow> jsstring \<Rightarrow> exn + state" where
  "setExpiration h st key expirationTime =
     (let expirationDate = Date_now h;
          allowedFormats = map fst (timeFormats h expirationDate);
          timeKey = (if expirationTime = [] then None else Some (last expirationTime));
          time = StringToNumber (case timeKey of None \<Rightarrow> expirationTime | Some c \<Rightarrow> remove1 c expirationTime)
      in if length expirationTime < 2 \<or> \<not> (\<exists>char \<in> set allowedFormats. timeKey = Some char) \<or> isNaN time
         then Inr (st\<lparr>console := console st @ [ConsoleWarn expiration_warning]\<rparr>)
         else
           (case timeKey of
              None \<Rightarrow> Inl TypeError
            | Some c \<Rightarrow>
                (case map_of (timeFormats h expirationDate) c of
                   None \<Rightarrow> Inl TypeError
                 | Some f \<Rightarrow>
                     Inr (with_backend
                            (\<lambda>S. setItem S (getExpirationKey st key)
                                   (JSON_stringify (JNumber (number_of_time (f time))))) st))))"

definition hasExpirationDate :: "state \<Rightarrow> jsstring \<Rightarrow> bool" where
  "hasExpirationDate st key = (getItem (backend st) (getExpirationKey st key) \<noteq> None)"

text \<open>\<open>JSON.parse\<close> converts its argument to a string first: an absent item reads \<open>null\<close>.\<close>

definition JSON_parse_item :: "jsstring option \<Rightarrow> exn + json" where
  "JSON_parse_item raw = JSON_parse (case raw of None \<Rightarrow> js ''null'' | Some s \<Rightarrow> s)"

definition hasExpired :: "host \<Rightarrow> state \<Rightarrow> jsstring \<Rightarrow> exn + bool" where
  "hasExpired h st key =
     (case JSON_parse_item (getItem (backend st) (getExpirationKey st key)) of
        Inl e \<Rightarrow> Inl e
      | Inr expirationDate \<Rightarrow>
          (case new_Date h expirationDate of
             Inl e \<Rightarrow> Inl e
           | Inr tv \<Rightarrow> Inr (case tv of None \<Rightarrow> False | Some t \<Rightarrow> t < Date_now h)))"

section \<open>Operations\<close>

definition config :: "state \<Rightarrow> LocalitConfig \<Rightarrow> state" where
  "config st c =
     (let t = (case type c of None \<Rightarrow> LocalStorage | Some t \<Rightarrow> t);
          st1 = st\<lparr>store := (if t = LocalStorage then LocalStorage else SessionStorage)\<rparr>
      in st1\<lparr>DOMAIN := (case domain c of None \<Rightarrow> [] | Some d \<Rightarrow> if d = [] then [] else d)\<rparr>)"

definition set_localit :: "host \<Rightarrow> state \<Rightarrow> jsstring \<Rightarrow> json \<Rightarrow> jsstring option \<Rightarrow> exn + state" where
  "set_localit h st key val expirationTime =
     (if key = [] then Inr (st\<lparr>console := console st @ [ConsoleError (js ''Localit: provide a key to store the value'')]\<rparr>)
      else
        (let val1 = (if typeof_js val = js ''object'' then JString (JSON_stringify val) else val) in
         case ToString val1 of
           Inl e \<Rightarrow> Inl e
         | Inr s \<Rightarrow>
             (let st1 = with_backend (\<lambda>S. setItem S (getFullKey st key) s) st in
              case expirationTime of
                None \<Rightarrow> Inr st1
              | Some spec \<Rightarrow> if spec = [] then Inr st1 else setExpiration h st1 key spec)))"

definition remove :: "state \<Rightarrow> jsstring \<Rightarrow> state" where
  "remove st key =
     (let st1 = with_backend (\<lambda>S. removeItem S (getFullKey st key)) st
      in with_backend (\<lambda>S. removeItem S (getExpirationKey st1 key)) st1)"

text \<open>
  \<open>get\<close>: an exception of \<open>hasExpired\<close> leaves the function; one of the read is caught, and
  the raw item returned.
\<close>

definition get :: "host \<Rightarrow> state \<Rightarrow> jsstring \<Rightarrow> exn + (json \<times> state)" where
  "get h st key =
     (let read =
            (case JSON_parse_item (getItem (backend st) (getFullKey st key)) of
               Inr v \<Rightarrow> Inr (v, st)
             | Inl e \<Rightarrow>
                 Inr (case getItem (backend st) (getFullKey st key) of
                        None \<Rightarrow> JNull
                      | Some s \<Rightarrow> JString s, st))
      in if hasExpirationDate st key
         then (case hasExpired h st key of
                 Inl e \<Rightarrow> Inl e
               | Inr expired \<Rightarrow> if expired then Inr (JNull, remove st key) else read)
         else read)"

definition getAndRemove :: "host \<Rightarrow> state \<Rightarrow> jsstring \<Rightarrow> exn + (json \<times> state)" where
  "getAndRemove h st key =
     (case get h st key of
        Inl e \<Rightarrow> Inl e
      | Inr (res, st1) \<Rightarrow> Inr (res, remove st1 key))"

definition setDomain :: "state \<Rightarrow> jsstring \<Rightarrow> state" where
  "setDomain st d = st\<lparr>DOMAIN := d\<rparr>"

text \<open>
  \<open>clearDomain\<close>: the loop runs over the keys that \<open>Object.keys\<close> listed when the loop
  started and removes from the live Storage. An absent argument is the current \<open>DOMAIN\<close>.
\<close>

definition clearDomain :: "state \<Rightarrow> jsstring option \<Rightarrow> state" where
  "clearDomain st arg =
     (let d = (case arg of None \<Rightarrow> DOMAIN st | Some d \<Rightarrow> d)
      in fold (\<lambda>key s. if includes_js key (d @ js ''_'') then with_backend (\<lambda>S. removeItem S key) s else s)
           (keys (backend st)) st)"

definition bust :: "state \<Rightarrow> state" where
  "bust st = with_backend clear st"

section \<open>Sequences of calls\<close>

text \<open>
  A call of a public operation, and the state after it. A call that throws leaves the
  state as it was when the exception occurred, which in every case is the state before
  the call.
\<close>

datatype operation =
    Config LocalitConfig
  | Set jsstring json "jsstring option"
  | Get jsstring
  | Remove jsstring
  | GetAndRemove jsstring
  | SetDomain jsstring
  | ClearDomain "jsstring option"
  | Bust

fun step :: "host \<Rightarrow> operation \<Rightarrow> state \<Rightarrow> state" where
  "step h (Config c) st = config st c"
| "step h (Set key val e) st = (case set_localit h st key val e of Inl x \<Rightarrow> st | Inr st1 \<Rightarrow> st1)"
| "step h (Get key) st = (case get h st key of Inl x \<Rightarrow> st | Inr (v, st1) \<Rightarrow> st1)"
| "step h (Remove key) st = remove st key"
| "step h (GetAndRemove key) st = (case getAndRemove h st key of Inl x \<Rightarrow> st | Inr (v, st1) \<Rightarrow> st1)"
| "step h (SetDomain d) st = setDomain st d"
| "step h (ClearDomain d) st = clearDomain st d"
| "step h Bust st = bust st"

fun run :: "(host \<times> operation) list \<Rightarrow> state \<Rightarrow> state" where
  "run [] st = st"
| "run ((h, c) # cs) st = run cs (step h c st)"

section \<open>Facts about strings and the Storage\<close>

lemma startsWith_iff: "startsWith s sub \<longleftrightarrow> (\<exists>ss. s = sub @ ss)"
  by (induction s sub rule: startsWith.induct) auto

lemma includes_iff: "includes_js s sub \<longleftrightarrow> (\<exists>ps ss. s = ps @ sub @ ss)"
proof (induction s)
  case Nil
  then show ?case by auto
next
  case (Cons x xs)
  show ?case
  proof
    assume "includes_js (x # xs) sub"
    then consider "startsWith (x # xs) sub" | "includes_js xs sub" by auto
    then show "\<exists>ps ss. x # xs = ps @ sub @ ss"
    proof cases
      case 1
      then obtain ss where "x # xs = sub @ ss" by (auto simp: startsWith_iff)
      then have "x # xs = [] @ sub @ ss" by simp
      then show ?thesis by blast
    next
      case 2
      then obtain ps ss where "xs = ps @ sub @ ss" using Cons.IH by auto
      then have "x # xs = (x # ps) @ sub @ ss" by simp
      then show ?thesis by blast
    qed
  next
    assume "\<exists>ps ss. x # xs = ps @ sub @ ss"
    then obtain ps ss where eq: "x # xs = ps @ sub @ ss" by auto
    show "includes_js (x # xs) sub"
    proof (cases ps)
      case Nil
      with eq have "startsWith (x # xs) sub" by (auto simp: startsWith_iff)
      then show ?thesis by simp
    next
      case (Cons p ps')
      with eq have "xs = ps' @ sub @ ss" by simp
      then have "includes_js xs sub" using Cons.IH by auto
      then show ?thesis by simp
    qed
  qed
qed

lemma getItem_setItem: "getItem (setItem S k v) k' = (if k' = k then Some v else getItem S k')"
  by (induction S) (auto simp: getItem_def)

lemma getItem_removeItem: "getItem (removeItem S k) k' = (if k' = k then None else getItem S k')"
  by (induction S) (auto simp: getItem_def removeItem_def)

lemma getItem_keys: "k \<in> set (keys S) \<longleftrightarrow> getItem S k \<noteq> None \<and> k \<notin> set prototype_properties"
  by (auto simp: getItem_def keys_def map_of_eq_None_iff)

lemma backend_with_backend [simp]: "backend (with_backend f st) = f (backend st)"
  by (cases "store st") (simp_all add: backend_def with_backend_def)

lemma with_backend_fields [simp]:
  "DOMAIN (with_backend f st) = DOMAIN st"
  "store (with_backend f st) = store st"
  "console (with_backend f st) = console st"
  by (cases "store st"; simp add: with_backend_def)+

lemma other_storage_with_backend:
  "store st = LocalStorage \<Longrightarrow> sessionStorage (with_backend f st) = sessionStorage st"
  "store st = SessionStorage \<Longrightarrow> localStorage (with_backend f st) = localStorage st"
  by (simp_all add: with_backend_def)

lemma getFullKey_with_backend [simp]: "getFullKey (with_backend f st) key = getFullKey st key"
  by (simp add: getFullKey_def)

lemma getExpirationKey_with_backend [simp]:
  "getExpirationKey (with_backend f st) key = getExpirationKey st key"
  by (simp add: getExpirationKey_def)

subsection \<open>The loop of \<open>clearDomain\<close>\<close>

definition clear_step :: "jsstring \<Rightarrow> jsstring \<Rightarrow> state \<Rightarrow> state" where
  "clear_step pat key s = (if includes_js key pat then with_backend (\<lambda>S. removeItem S key) s else s)"

lemma clear_step_fields [simp]:
  "DOMAIN (clear_step pat key s) = DOMAIN s"
  "store (clear_step pat key s) = store s"
  "console (clear_step pat key s) = console s"
  by (simp_all add: clear_step_def)

lemma fold_clear_step_fields:
  "DOMAIN (fold (clear_step pat) ks s) = DOMAIN s \<and>
   store (fold (clear_step pat) ks s) = store s \<and>
   console (fold (clear_step pat) ks s) = console s"
  by (induction ks arbitrary: s) simp_all

lemma fold_clear_step_other:
  "(store s = LocalStorage \<longrightarrow> sessionStorage (fold (clear_step pat) ks s) = sessionStorage s) \<and>
   (store s = SessionStorage \<longrightarrow> localStorage (fold (clear_step pat) ks s) = localStorage s)"
proof (induction ks arbitrary: s)
  case Nil
  then show ?case by simp
next
  case (Cons k ks)
  have "store (clear_step pat k s) = store s" by simp
  moreover have "store s = LocalStorage \<longrightarrow> sessionStorage (clear_step pat k s) = sessionStorage s"
    by (simp add: clear_step_def other_storage_with_backend)
  moreover have "store s = SessionStorage \<longrightarrow> localStorage (clear_step pat k s) = localStorage s"
    by (simp add: clear_step_def other_storage_with_backend)
  ultimately show ?case using Cons.IH [of "clear_step pat k s"] by simp
qed

lemma getItem_fold_clear_step:
  "getItem (backend (fold (clear_step pat) ks s)) k =
     (if k \<in> set ks \<and> includes_js k pat then None else getItem (backend s) k)"
proof (induction ks arbitrary: s)
  case Nil
  then show ?case by simp
next
  case (Cons a ks)
  have step: "getItem (backend (clear_step pat a s)) k =
      (if k = a \<and> includes_js k pat then None else getItem (backend s) k)"
    by (auto simp: clear_step_def getItem_removeItem)
  have "getItem (backend (fold (clear_step pat) (a # ks) s)) k =
      (if k \<in> set ks \<and> includes_js k pat then None else getItem (backend (clear_step pat a s)) k)"
    using Cons.IH [of "clear_step pat a s"] by simp
  then show ?case unfolding step by auto
qed

lemma clearDomain_fold:
  "clearDomain st arg =
     fold (clear_step ((case arg of None \<Rightarrow> DOMAIN st | Some d \<Rightarrow> d) @ js ''_'')) (keys (backend st)) st"
proof -
  have "(\<lambda>key s. if includes_js key pat then with_backend (\<lambda>S. removeItem S key) s else s) = clear_step pat"
    for pat by (intro ext) (simp add: clear_step_def)
  then show ?thesis by (simp add: clearDomain_def Let_def)
qed

text \<open>
  What \<open>clearDomain\<close> removes: the keys in which the pattern occurs, but for those that
  \<open>Object.keys\<close> does not list.
\<close>

lemma getItem_clearDomain:
  "getItem (backend (clearDomain st arg)) k =
     (if includes_js k ((case arg of None \<Rightarrow> DOMAIN st | Some d \<Rightarrow> d) @ js ''_'') \<and>
         k \<notin> set prototype_properties
      then None
      else getItem (backend st) k)"
proof -
  have "k \<notin> set (keys (backend st)) \<Longrightarrow> k \<notin> set prototype_properties \<Longrightarrow> getItem (backend st) k = None"
    by (simp add: getItem_keys)
  moreover have "k \<in> set (keys (backend st)) \<Longrightarrow> k \<notin> set prototype_properties"
    by (simp add: getItem_keys)
  ultimately show ?thesis
    by (auto simp: clearDomain_fold getItem_fold_clear_step)
qed

lemma expiration_key_listed: "K @ EXPIRE \<notin> set prototype_properties"
proof -
  have 1: "\<forall>p \<in> set prototype_properties. take 2 (rev p) \<noteq> [ch CHR ''e'', ch CHR ''t'']"
    by (simp add: prototype_properties_def js_def ch_def)
  have 2: "take 2 (rev (K @ EXPIRE)) = [ch CHR ''e'', ch CHR ''t'']"
    by (simp add: EXPIRE_def js_def)
  from 1 2 show ?thesis by blast
qed

lemma includes_single: "includes_js k [c] \<longleftrightarrow> c \<in> set k"
  by (induction k) auto

lemma fullKey_has_underscore: "includes_js (getFullKey st key) (js ''_'')"
  unfolding includes_iff getFullKey_def by metis

lemma expirationKey_has_underscore: "includes_js (getExpirationKey st key) (js ''_'')"
  unfolding includes_iff getExpirationKey_def getFullKey_def by (metis append.assoc)

text \<open>
  The effect of \<open>clearDomain\<close> on the keys that \<open>Object.keys\<close> lists: those in which the
  domain followed by an underscore occurs at some position are removed, the others keep
  their values; nothing else of the state changes.
\<close>

lemma clearDomain_listed_keys:
  "(k \<notin> set prototype_properties \<longrightarrow>
      getItem (backend (clearDomain st (Some d))) k =
        (if (\<exists>ps ss. k = ps @ (d @ js ''_'') @ ss) then None else getItem (backend st) k)) \<and>
   (k \<in> set prototype_properties \<longrightarrow>
      getItem (backend (clearDomain st (Some d))) k = getItem (backend st) k) \<and>
   clearDomain st None = clearDomain st (Some (DOMAIN st)) \<and>
   DOMAIN (clearDomain st (Some d)) = DOMAIN st \<and>
   store (clearDomain st (Some d)) = store st \<and>
   console (clearDomain st (Some d)) = console st \<and>
   (case store st of
      LocalStorage \<Rightarrow> sessionStorage (clearDomain st (Some d)) = sessionStorage st
    | SessionStorage \<Rightarrow> localStorage (clearDomain st (Some d)) = localStorage st)"
proof -
  have 1: "k \<notin> set prototype_properties \<longrightarrow>
      getItem (backend (clearDomain st (Some d))) k =
        (if (\<exists>ps ss. k = ps @ (d @ js ''_'') @ ss) then None else getItem (backend st) k)"
    using getItem_clearDomain [of st "Some d" k] by (simp add: includes_iff)
  have 2: "k \<in> set prototype_properties \<longrightarrow>
      getItem (backend (clearDomain st (Some d))) k = getItem (backend st) k"
    using getItem_clearDomain [of st "Some d" k] by simp
  have 3: "clearDomain st None = clearDomain st (Some (DOMAIN st))"
    by (simp add: clearDomain_def)
  have 4: "DOMAIN (clearDomain st (Some d)) = DOMAIN st"
    "store (clearDomain st (Some d)) = store st"
    "console (clearDomain st (Some d)) = console st"
    by (simp_all add: clearDomain_fold fold_clear_step_fields)
  have 5: "(case store st of
      LocalStorage \<Rightarrow> sessionStorage (clearDomain st (Some d)) = sessionStorage st
    | SessionStorage \<Rightarrow> localStorage (clearDomain st (Some d)) = localStorage st)"
    using fold_clear_step_other [of st "d @ js ''_''" "keys (backend st)"]
    by (simp add: clearDomain_fold split: StorageType.split)
  from 1 2 3 4 5 show ?thesis by blast
qed

text \<open>
  With the empty domain the pattern is a single underscore, which every full key and
  every expiration key contains, whatever the domain they were written under.
\<close>

lemma clearDomain_empty_domain_listed:
  assumes "DOMAIN st = []"
  shows "(getFullKey (st\<lparr>DOMAIN := D\<rparr>) key \<notin> set prototype_properties \<longrightarrow>
            getItem (backend (clearDomain st None)) (getFullKey (st\<lparr>DOMAIN := D\<rparr>) key) = None) \<and>
         getItem (backend (clearDomain st None)) (getExpirationKey (st\<lparr>DOMAIN := D\<rparr>) key) = None"
proof (intro conjI)
  show "getFullKey (st\<lparr>DOMAIN := D\<rparr>) key \<notin> set prototype_properties \<longrightarrow>
      getItem (backend (clearDomain st None)) (getFullKey (st\<lparr>DOMAIN := D\<rparr>) key) = None"
    using assms getItem_clearDomain [of st None] fullKey_has_underscore [of "st\<lparr>DOMAIN := D\<rparr>" key]
    by (simp add: js_def)
  show "getItem (backend (clearDomain st None)) (getExpirationKey (st\<lparr>DOMAIN := D\<rparr>) key) = None"
    using assms getItem_clearDomain [of st None] expirationKey_has_underscore [of "st\<lparr>DOMAIN := D\<rparr>" key]
      expiration_key_listed [of "getFullKey (st\<lparr>DOMAIN := D\<rparr>) key"]
    by (simp add: js_def getExpirationKey_def)
qed

section \<open>Facts about numbers and JSON texts\<close>

subsection \<open>Digits\<close>

lemma is_digit_unat: "is_digit c \<longleftrightarrow> 48 \<le> unat c \<and> unat c \<le> 57"
  by (simp add: is_digit_def word_le_nat_alt)

lemma unat_digit_char: "d < 10 \<Longrightarrow> unat (digit_char d) = 48 + d"
proof -
  assume "d < 10"
  have "unat (word_of_nat (48 + d) :: jschar) = (48 + d) mod 2 ^ LENGTH(16)"
    by (rule unat_of_nat)
  with \<open>d < 10\<close> show ?thesis by (simp add: digit_char_def)
qed

lemma is_digit_digit_char: "d < 10 \<Longrightarrow> is_digit (digit_char d)"
  by (simp add: is_digit_unat unat_digit_char)

lemma digit_val_digit_char: "d < 10 \<Longrightarrow> digit_val (digit_char d) = d"
  by (simp add: digit_val_def unat_digit_char)

lemma digit_char_zero: "digit_char 0 = 0x30"
  by (simp add: digit_char_def)

lemma digit_char_eq_zero: "d < 10 \<Longrightarrow> digit_char d = 0x30 \<longleftrightarrow> d = 0"
proof -
  assume d: "d < 10"
  have "digit_char d = 0x30 \<longleftrightarrow> unat (digit_char d) = unat (0x30 :: jschar)"
    by (simp only: word_unat_eq_iff)
  also have "\<dots> \<longleftrightarrow> d = 0" using d by (simp add: unat_digit_char)
  finally show ?thesis .
qed

lemma digits_of_digits: "\<forall>c \<in> set (digits_of n). is_digit c"
proof (induction n rule: digits_of.induct)
  case (1 n)
  show ?case
  proof (cases "n < 10")
    case True
    then show ?thesis by (simp add: digits_of.simps [of n] is_digit_digit_char)
  next
    case False
    then show ?thesis using 1 by (simp add: digits_of.simps [of n] is_digit_digit_char)
  qed
qed

lemma digits_of_nonempty: "digits_of n \<noteq> []"
  by (subst digits_of.simps) simp

lemma nat_of_digits_Nil [simp]: "nat_of_digits [] = 0"
  by (simp add: nat_of_digits_def)

lemma nat_of_digits_snoc: "nat_of_digits (ds @ [c]) = 10 * nat_of_digits ds + digit_val c"
  by (simp add: nat_of_digits_def)

lemma nat_of_digits_append:
  "nat_of_digits (a @ b) = nat_of_digits a * 10 ^ length b + nat_of_digits b"
proof (induction b rule: rev_induct)
  case Nil
  then show ?case by simp
next
  case (snoc x xs)
  have "nat_of_digits (a @ xs @ [x]) = 10 * nat_of_digits (a @ xs) + digit_val x"
    using nat_of_digits_snoc [of "a @ xs" x] by simp
  then show ?case by (simp add: snoc.IH nat_of_digits_snoc algebra_simps)
qed

lemma nat_of_digits_of: "nat_of_digits (digits_of n) = n"
proof (induction n rule: digits_of.induct)
  case (1 n)
  show ?case
  proof (cases "n < 10")
    case True
    then show ?thesis
      using nat_of_digits_snoc [of "[]" "digit_char n"]
      by (simp add: digits_of.simps [of n] digit_val_digit_char)
  next
    case False
    then show ?thesis using 1
      by (simp add: digits_of.simps [of n] nat_of_digits_snoc digit_val_digit_char)
  qed
qed

lemma nat_of_zeros: "nat_of_digits (replicate j 0x30) = 0"
proof (induction j)
  case 0
  then show ?case by simp
next
  case (Suc j)
  have "replicate (Suc j) (0x30 :: jschar) = replicate j 0x30 @ [0x30]"
    by (simp add: replicate_append_same)
  then show ?case using Suc by (simp add: nat_of_digits_snoc digit_val_def del: replicate_Suc)
qed

lemma nat_of_leading_zeros: "nat_of_digits (replicate j 0x30 @ ds) = nat_of_digits ds"
  by (simp add: nat_of_digits_append nat_of_zeros)

lemma nat_of_trailing_zeros: "nat_of_digits (ds @ replicate j 0x30) = nat_of_digits ds * 10 ^ j"
  by (simp add: nat_of_digits_append nat_of_zeros)

lemma hd_digits_of: "0 < n \<Longrightarrow> hd (digits_of n) \<noteq> 0x30"
proof (induction n rule: digits_of.induct)
  case (1 n)
  show ?case
  proof (cases "n < 10")
    case True
    then show ?thesis using 1(2) by (simp add: digits_of.simps [of n] digit_char_eq_zero)
  next
    case False
    then have "0 < n div 10" by simp
    then show ?thesis using 1(1) False
      by (simp add: digits_of.simps [of n] digits_of_nonempty)
  qed
qed

lemma mk_fin_normal: "m \<noteq> 0 \<Longrightarrow> m mod 10 \<noteq> 0 \<Longrightarrow> mk_fin m e = Fin m e"
  by (simp add: mk_fin.simps)

lemma mk_fin_zero [simp]: "mk_fin 0 e = Fin 0 0"
  by (simp add: mk_fin.simps)

lemma mk_fin_times_ten: "m \<noteq> 0 \<Longrightarrow> mk_fin (m * 10) e = mk_fin m (e + 1)"
  by (subst mk_fin.simps) simp

lemma mk_fin_shift: "m \<noteq> 0 \<Longrightarrow> mk_fin (m * 10 ^ j) e = mk_fin m (e + int j)"
proof (induction j arbitrary: e)
  case 0
  then show ?case by simp
next
  case (Suc j)
  have "m * 10 ^ Suc j = (m * 10 ^ j) * 10" by simp
  then have "mk_fin (m * 10 ^ Suc j) e = mk_fin ((m * 10 ^ j) * 10) e" by (rule arg_cong2) simp
  also have "\<dots> = mk_fin (m * 10 ^ j) (e + 1)" using Suc.prems by (intro mk_fin_times_ten) simp
  also have "\<dots> = mk_fin m (e + 1 + int j)" using Suc by simp
  also have "\<dots> = mk_fin m (e + int (Suc j))"
    by (rule arg_cong2 [where f = mk_fin]) simp_all
  finally show ?case .
qed

subsection \<open>Printing and reading a number\<close>

lemma delim_no_digit: "delim t \<Longrightarrow> no_digit t"
  by (auto simp: delim_def no_digit_def split: list.splits)

lemma span_digits:
  assumes "\<forall>c \<in> set a. is_digit c" "no_digit t"
  shows "takeWhile is_digit (a @ t) = a" "dropWhile is_digit (a @ t) = t"
proof -
  have t: "takeWhile is_digit t = []" "dropWhile is_digit t = t"
    using assms(2) by (cases t; simp add: no_digit_def)+
  show "takeWhile is_digit (a @ t) = a" using assms(1) t by (simp add: takeWhile_append2)
  show "dropWhile is_digit (a @ t) = t" using assms(1) t by (simp add: dropWhile_append2)
qed

lemma not_digit_chars [simp]:
  "\<not> is_digit 0x2E" "\<not> is_digit 0x65" "\<not> is_digit 0x45" "\<not> is_digit 0x2D" "\<not> is_digit 0x2B"
  "is_digit 0x30"
  by (simp_all add: is_digit_def)

lemma parse_int_nonzero:
  assumes "is_digit c" "c \<noteq> 0x30" "\<forall>x \<in> set a. is_digit x" "no_digit t"
  shows "parse_int (c # a @ t) = Some (c # a, t)"
  using assms span_digits [of a t] by (simp add: parse_int_def)

lemma parse_int_zero: "parse_int (0x30 # t) = Some ([0x30], t)"
  by (simp add: parse_int_def)

lemma parse_frac_none: "delim t \<Longrightarrow> parse_frac t = Some ([], t)"
  by (cases t) (simp_all add: parse_frac_def delim_def)

lemma parse_frac_e: "parse_frac (0x65 # t) = Some ([], 0x65 # t)"
  by (simp add: parse_frac_def)

lemma parse_frac_some:
  assumes "fd \<noteq> []" "\<forall>x \<in> set fd. is_digit x" "no_digit t"
  shows "parse_frac (0x2E # fd @ t) = Some (fd, t)"
  using assms span_digits [of fd t] by (simp add: parse_frac_def)

lemma parse_exp_none: "delim t \<Longrightarrow> parse_exp t = Some (0, t)"
  by (cases t) (simp_all add: parse_exp_def delim_def)

lemma parse_exp_some:
  assumes "no_digit t"
  shows "parse_exp (0x65 # (if neg then [0x2D] else [0x2B]) @ digits_of n @ t) =
           Some ((if neg then - 1 else 1) * int n, t)"
proof -
  have sp: "takeWhile is_digit (digits_of n @ t) = digits_of n" "dropWhile is_digit (digits_of n @ t) = t"
    using span_digits [OF digits_of_digits assms] by auto
  show ?thesis
    by (simp add: parse_exp_def parse_sign_def sp digits_of_nonempty nat_of_digits_of)
qed

lemma digits_of_Cons:
  assumes "0 < s"
  obtains d0 dt where "digits_of s = d0 # dt" "is_digit d0" "d0 \<noteq> 0x30" "\<forall>x \<in> set dt. is_digit x"
proof -
  obtain d0 dt where eq: "digits_of s = d0 # dt"
    using digits_of_nonempty [of s] by (cases "digits_of s") auto
  have "is_digit d0" "\<forall>x \<in> set dt. is_digit x"
    using digits_of_digits [of s] eq by auto
  moreover have "d0 \<noteq> 0x30" using hd_digits_of [OF assms] eq by simp
  ultimately show ?thesis using that eq by blast
qed

lemma zeros_digits: "\<forall>x \<in> set (replicate j (0x30 :: jschar)). is_digit x"
  by simp

lemma parse_unsigned_compose:
  assumes "parse_int s = Some (ip, s2)" "parse_frac s2 = Some (fd, s3)" "parse_exp s3 = Some (ex, s4)"
  shows "parse_unsigned s = Some (nat_of_digits (ip @ fd), ex - int (length fd), s4)"
  using assms by (simp add: parse_unsigned_def)

lemma parse_unsigned_toString:
  assumes s: "0 < s" and t: "delim t"
  shows "\<exists>j. parse_unsigned (positive_toString s e @ t) = Some (s * 10 ^ j, e - int j, t)"
proof -
  obtain d0 dt where ds: "digits_of s = d0 # dt" and d0: "is_digit d0" "d0 \<noteq> 0x30"
    and dt: "\<forall>x \<in> set dt. is_digit x"
    using digits_of_Cons [OF s] by blast
  define k where "k = int (length (digits_of s))"
  define n where "n = k + e"
  have k: "k = 1 + int (length dt)" by (simp add: k_def ds)
  have nd: "no_digit t" using t by (rule delim_no_digit)
  have val: "nat_of_digits (d0 # dt) = s" using nat_of_digits_of [of s] ds by simp
  let ?ex = "0x65 # (if n - 1 < 0 then [0x2D] else [0x2B]) @ digits_of (nat \<bar>n - 1\<bar>) @ t"
  have ex: "parse_exp ?ex = Some (n - 1, t)"
    using parse_exp_some [OF nd, of "n - 1 < 0" "nat \<bar>n - 1\<bar>"] by (simp split: if_splits)
  consider (int) "k \<le> n" "n \<le> 21"
    | (dec) "\<not> (k \<le> n \<and> n \<le> 21)" "0 < n" "n \<le> 21"
    | (small) "\<not> (k \<le> n \<and> n \<le> 21)" "\<not> (0 < n \<and> n \<le> 21)" "- 6 < n" "n \<le> 0"
    | (exp1) "\<not> (k \<le> n \<and> n \<le> 21)" "\<not> (0 < n \<and> n \<le> 21)" "\<not> (- 6 < n \<and> n \<le> 0)" "k = 1"
    | (expk) "\<not> (k \<le> n \<and> n \<le> 21)" "\<not> (0 < n \<and> n \<le> 21)" "\<not> (- 6 < n \<and> n \<le> 0)" "k \<noteq> 1"
    by blast
  then show ?thesis
  proof cases
    case int
    then have e0: "0 \<le> e" by (simp add: n_def)
    let ?a = "dt @ replicate (nat e) 0x30"
    have str: "positive_toString s e @ t = d0 # ?a @ t"
      using int by (simp add: positive_toString_def Let_def ds n_def k)
    have 1: "parse_int (d0 # ?a @ t) = Some (d0 # ?a, t)"
      using d0 dt nd by (intro parse_int_nonzero) auto
    have res: "parse_unsigned (d0 # ?a @ t) = Some (nat_of_digits ((d0 # ?a) @ []), 0 - int (length ([] :: jsstring)), t)"
      by (rule parse_unsigned_compose [OF 1 parse_frac_none [OF t] parse_exp_none [OF t]])
    have v: "nat_of_digits ((d0 # ?a) @ []) = s * 10 ^ nat e"
      using nat_of_trailing_zeros [of "d0 # dt" "nat e"] val by simp
    show ?thesis unfolding str res v using e0 by (intro exI [of _ "nat e"]) simp
  next
    case dec
    then have nk: "n < k" by simp
    define i where "i = nat n - 1"
    have i: "nat n = Suc i" "i < length dt" using dec nk by (simp_all add: i_def k)
    have pts: "positive_toString s e = take (nat n) (d0 # dt) @ [0x2E] @ drop (nat n) (d0 # dt)"
      using dec by (simp add: positive_toString_def Let_def ds n_def k)
    let ?s2 = "0x2E # drop i dt @ t"
    have str: "positive_toString s e @ t = d0 # take i dt @ ?s2"
      unfolding pts i(1) by simp
    have 1: "parse_int (d0 # take i dt @ ?s2) = Some (d0 # take i dt, ?s2)"
      using d0 dt by (intro parse_int_nonzero) (auto simp: no_digit_def dest: in_set_takeD)
    have 2: "parse_frac ?s2 = Some (drop i dt, t)"
      using dt i nd by (intro parse_frac_some) (auto dest: in_set_dropD)
    have res: "parse_unsigned (d0 # take i dt @ ?s2) =
        Some (nat_of_digits ((d0 # take i dt) @ drop i dt), 0 - int (length (drop i dt)), t)"
      by (rule parse_unsigned_compose [OF 1 2 parse_exp_none [OF t]])
    have v: "nat_of_digits ((d0 # take i dt) @ drop i dt) = s" using val by simp
    have x: "0 - int (length (drop i dt)) = e" using i dec unfolding n_def k by simp
    show ?thesis unfolding str res v x by (intro exI [of _ 0]) simp
  next
    case small
    let ?fd = "replicate (nat (- n)) 0x30 @ d0 # dt"
    have str: "positive_toString s e @ t = 0x30 # 0x2E # ?fd @ t"
      using small by (simp add: positive_toString_def Let_def ds n_def k)
    have 2: "parse_frac (0x2E # ?fd @ t) = Some (?fd, t)"
      using d0 dt nd by (intro parse_frac_some) auto
    have res: "parse_unsigned (0x30 # 0x2E # ?fd @ t) =
        Some (nat_of_digits ([0x30] @ ?fd), 0 - int (length ?fd), t)"
      by (rule parse_unsigned_compose [OF parse_int_zero 2 parse_exp_none [OF t]])
    have v: "nat_of_digits ([0x30] @ ?fd) = s"
      using nat_of_leading_zeros [of "Suc (nat (- n))" "d0 # dt"] val by simp
    have x: "0 - int (length ?fd) = e" using small by (simp add: n_def k)
    show ?thesis unfolding str res v x by (intro exI [of _ 0]) simp
  next
    case exp1
    then have dt0: "dt = []" by (simp add: k)
    have "positive_toString s e =
        (if k = 1 then digits_of s @ [0x65] @ (if n - 1 < 0 then [0x2D] else [0x2B]) @ digits_of (nat \<bar>n - 1\<bar>)
         else take 1 (digits_of s) @ [0x2E] @ drop 1 (digits_of s) @ [0x65] @
              (if n - 1 < 0 then [0x2D] else [0x2B]) @ digits_of (nat \<bar>n - 1\<bar>))"
      unfolding positive_toString_def Let_def k_def [symmetric] n_def [symmetric]
      by (simp only: exp1(1,2,3) if_False)
    then have str: "positive_toString s e @ t = d0 # [] @ ?ex"
      using exp1(4) by (simp add: ds dt0)
    have 1: "parse_int (d0 # [] @ ?ex) = Some (d0 # [], ?ex)"
      using d0 by (intro parse_int_nonzero) (auto simp: no_digit_def)
    have res: "parse_unsigned (d0 # [] @ ?ex) = Some (nat_of_digits ([d0] @ []), (n - 1) - int (length ([] :: jsstring)), t)"
      by (rule parse_unsigned_compose [OF 1 parse_frac_e ex])
    have v: "nat_of_digits ([d0] @ []) = s" using val dt0 by simp
    have x: "(n - 1) - int (length ([] :: jsstring)) = e" using exp1 by (simp add: n_def)
    show ?thesis unfolding str res v x by (intro exI [of _ 0]) simp
  next
    case expk
    then have dtn: "dt \<noteq> []" by (auto simp: k)
    have "positive_toString s e =
        (if k = 1 then digits_of s @ [0x65] @ (if n - 1 < 0 then [0x2D] else [0x2B]) @ digits_of (nat \<bar>n - 1\<bar>)
         else take 1 (digits_of s) @ [0x2E] @ drop 1 (digits_of s) @ [0x65] @
              (if n - 1 < 0 then [0x2D] else [0x2B]) @ digits_of (nat \<bar>n - 1\<bar>))"
      unfolding positive_toString_def Let_def k_def [symmetric] n_def [symmetric]
      by (simp only: expk(1,2,3) if_False)
    then have str: "positive_toString s e @ t = d0 # [] @ (0x2E # dt @ ?ex)"
      using expk(4) by (simp add: ds)
    have 1: "parse_int (d0 # [] @ (0x2E # dt @ ?ex)) = Some (d0 # [], 0x2E # dt @ ?ex)"
      using d0 by (intro parse_int_nonzero) (auto simp: no_digit_def)
    have 2: "parse_frac (0x2E # dt @ ?ex) = Some (dt, ?ex)"
      using dt dtn by (intro parse_frac_some) (auto simp: no_digit_def)
    have res: "parse_unsigned (d0 # [] @ (0x2E # dt @ ?ex)) = Some (nat_of_digits ([d0] @ dt), (n - 1) - int (length dt), t)"
      by (rule parse_unsigned_compose [OF 1 2 ex])
    have v: "nat_of_digits ([d0] @ dt) = s" using val by simp
    have x: "(n - 1) - int (length dt) = e" by (simp add: n_def k)
    show ?thesis unfolding str res v x by (intro exI [of _ 0]) simp
  qed
qed

lemma parse_number_toString:
  assumes "num_ok (Fin m e)" "delim t"
  shows "parse_number (Number_toString (Fin m e) @ t) = Some (Fin m e, t)"
proof (cases "m = 0")
  case True
  with assms(1) have e: "e = 0" by (simp add: num_ok_def)
  have "parse_unsigned (0x30 # t) = Some (nat_of_digits ([0x30] @ []), 0 - int (length ([] :: jsstring)), t)"
    by (rule parse_unsigned_compose [OF parse_int_zero parse_frac_none [OF assms(2)] parse_exp_none [OF assms(2)]])
  then show ?thesis using True e
    by (simp add: Number_toString_def parse_number_def js_def ch_def nat_of_digits_def digit_val_def)
next
  case False
  with assms(1) have m10: "m mod 10 \<noteq> 0" by (simp add: num_ok_def)
  have pos: "0 < nat \<bar>m\<bar>" using False by simp
  obtain j where j: "parse_unsigned (positive_toString (nat \<bar>m\<bar>) e @ t) = Some (nat \<bar>m\<bar> * 10 ^ j, e - int j, t)"
    using parse_unsigned_toString [OF pos assms(2)] by blast
  obtain d0 dt where ds: "digits_of (nat \<bar>m\<bar>) = d0 # dt" and d0: "is_digit d0"
    using digits_of_Cons [OF pos] by blast
  have first: "positive_toString (nat \<bar>m\<bar>) e \<noteq> [] \<and> hd (positive_toString (nat \<bar>m\<bar>) e) \<noteq> 0x2D"
    using d0 by (auto simp: positive_toString_def Let_def ds)
  show ?thesis
  proof (cases "m < 0")
    case True
    have "mk_fin (- int (nat \<bar>m\<bar> * 10 ^ j)) (e - int j) = mk_fin (m * 10 ^ j) (e - int j)"
      using True by simp
    also have "\<dots> = mk_fin m (e - int j + int j)" using False by (rule mk_fin_shift)
    also have "\<dots> = Fin m e" using False m10 by (simp add: mk_fin_normal)
    finally show ?thesis using True j
      by (simp add: Number_toString_def parse_number_def js_def ch_def)
  next
    case nonneg: False
    have "mk_fin (int (nat \<bar>m\<bar> * 10 ^ j)) (e - int j) = mk_fin (m * 10 ^ j) (e - int j)"
      using nonneg by simp
    also have "\<dots> = mk_fin m (e - int j + int j)" using False by (rule mk_fin_shift)
    also have "\<dots> = Fin m e" using False m10 by (simp add: mk_fin_normal)
    finally have fin: "mk_fin (int (nat \<bar>m\<bar> * 10 ^ j)) (e - int j) = Fin m e" .
    obtain c r where cr: "positive_toString (nat \<bar>m\<bar>) e @ t = c # r" "c \<noteq> 0x2D"
      using first by (cases "positive_toString (nat \<bar>m\<bar>) e") auto
    have "parse_number (positive_toString (nat \<bar>m\<bar>) e @ t) = Some (Fin m e, t)"
      using j fin cr unfolding parse_number_def by simp
    then show ?thesis using nonneg False
      by (simp add: Number_toString_def)
  qed
qed

subsection \<open>Quoting and reading a string\<close>

lemma unat_hex_char: "d < 16 \<Longrightarrow> unat (hex_char d) = (if d < 10 then 48 + d else 87 + d)"
proof -
  assume d: "d < 16"
  have 1: "unat (word_of_nat (48 + d) :: jschar) = (48 + d) mod 2 ^ LENGTH(16)"
    by (rule unat_of_nat)
  have 2: "unat (word_of_nat (87 + d) :: jschar) = (87 + d) mod 2 ^ LENGTH(16)"
    by (rule unat_of_nat)
  from d have "(48 + d) mod 2 ^ LENGTH(16) = 48 + d" "(87 + d) mod 2 ^ LENGTH(16) = 87 + d"
    by simp_all
  with 1 2 show ?thesis unfolding hex_char_def by presburger
qed

lemma hex_val_unat:
  "hex_val c =
     (if 48 \<le> unat c \<and> unat c \<le> 57 then Some (unat c - 48)
      else if 97 \<le> unat c \<and> unat c \<le> 102 then Some (unat c - 87)
      else if 65 \<le> unat c \<and> unat c \<le> 70 then Some (unat c - 55)
      else None)"
  by (simp add: hex_val_def word_le_nat_alt)

lemma hex_val_hex_char: "d < 16 \<Longrightarrow> hex_val (hex_char d) = Some d"
  unfolding hex_val_unat by (simp add: unat_hex_char)

lemma nibbles: "word_of_nat (4096 * (unat c div 4096) + 256 * (unat c div 256 mod 16) + 16 * (unat c div 16 mod 16) + unat c mod 16) = (c :: jschar)"
proof -
  define n where "n = unat c"
  have a: "n mod 256 = 16 * (n div 16 mod 16) + n mod 16"
    using mod_mult2_eq [of n 16 16] by simp
  have b: "n mod 4096 = 256 * (n div 256 mod 16) + n mod 256"
    using mod_mult2_eq [of n 256 16] by simp
  have "n = 4096 * (n div 4096) + n mod 4096" by simp
  then have "4096 * (n div 4096) + 256 * (n div 256 mod 16) + 16 * (n div 16 mod 16) + n mod 16 = n"
    using a b by linarith
  then have "4096 * (unat c div 4096) + 256 * (unat c div 256 mod 16) + 16 * (unat c div 16 mod 16) + unat c mod 16 = unat c"
    by (simp only: n_def)
  then have "word_of_nat (4096 * (unat c div 4096) + 256 * (unat c div 256 mod 16) + 16 * (unat c div 16 mod 16) + unat c mod 16)
      = (word_of_nat (unat c) :: jschar)" by (rule arg_cong)
  also have "\<dots> = c" by simp
  finally show ?thesis .
qed

lemma hex4_escape:
  "hex4 (hex_char (unat c div 4096)) (hex_char (unat c div 256 mod 16))
        (hex_char (unat c div 16 mod 16)) (hex_char (unat c mod 16)) = Some (c :: jschar)"
proof -
  have "unat c < 2 ^ LENGTH(16)" by (rule unsigned_less)
  then have a: "unat c div 4096 < 16" by simp
  have b: "unat c div 256 mod 16 < 16" "unat c div 16 mod 16 < 16" "unat c mod 16 < 16" by simp_all
  show ?thesis
    unfolding hex4_def hex_val_hex_char [OF a] hex_val_hex_char [OF b(1)]
      hex_val_hex_char [OF b(2)] hex_val_hex_char [OF b(3)]
    by (simp only: prod.case option.case nibbles)
qed

lemma parse_chars_quote: "parse_chars (0x22 # cs) = Some ([], cs)"
  by simp

lemma parse_chars_u:
  "parse_chars (0x5C # 0x75 # a # b # c # d # r) =
     (case hex4 a b c d of None \<Rightarrow> None | Some u \<Rightarrow> cons_result u (parse_chars r))"
  by simp

lemma parse_chars_esc:
  "e \<noteq> 0x75 \<Longrightarrow> parse_chars (0x5C # e # r) =
     (case unescape e of None \<Rightarrow> None | Some u \<Rightarrow> cons_result u (parse_chars r))"
  by simp

lemma parse_chars_literal:
  "c \<noteq> 0x22 \<Longrightarrow> c \<noteq> 0x5C \<Longrightarrow> \<not> c < 0x20 \<Longrightarrow> parse_chars (c # tail) = cons_result c (parse_chars tail)"
  by simp

declare parse_chars.simps [simp del]

lemma parse_chars_escape:
  "parse_chars (UnicodeEscape c @ tail) = cons_result c (parse_chars tail)"
  unfolding UnicodeEscape_def by (simp add: parse_chars_u hex4_escape)

lemma parse_chars_quote_unit:
  "parse_chars (quote_unit c @ tail) = cons_result c (parse_chars tail)"
proof -
  consider "c = 0x08" | "c = 0x09" | "c = 0x0A" | "c = 0x0C" | "c = 0x0D" | "c = 0x22" | "c = 0x5C"
    | (esc) "c \<notin> {0x08, 0x09, 0x0A, 0x0C, 0x0D, 0x22, 0x5C}" "c < 0x20 \<or> is_lead c \<or> is_trail c"
    | (lit) "c \<notin> {0x08, 0x09, 0x0A, 0x0C, 0x0D, 0x22, 0x5C}" "\<not> (c < 0x20 \<or> is_lead c \<or> is_trail c)"
    by blast
  then show ?thesis
  proof cases
    case esc
    then have "quote_unit c = UnicodeEscape c" by (simp add: quote_unit_def)
    then show ?thesis by (simp add: parse_chars_escape)
  next
    case lit
    then have "quote_unit c = [c]" by (simp add: quote_unit_def)
    then show ?thesis using lit by (simp add: parse_chars_literal)
  qed (simp_all add: quote_unit_def parse_chars_esc unescape_def)
qed

lemma surrogate_literal:
  "is_lead c \<or> is_trail c \<Longrightarrow> c \<noteq> 0x22 \<and> c \<noteq> 0x5C \<and> \<not> c < 0x20"
  unfolding is_lead_def is_trail_def word_le_nat_alt word_less_nat_alt by auto

lemma parse_chars_quote_units:
  "parse_chars (quote_units s @ 0x22 # rest) = Some (s, rest)"
proof (induction s rule: quote_units.induct)
  case 1
  then show ?case by (simp add: parse_chars_quote)
next
  case (2 c)
  then show ?case using parse_chars_quote_unit [of c "0x22 # rest"]
    by (simp add: cons_result_def parse_chars_quote)
next
  case (3 c d cs)
  show ?case
  proof (cases "is_lead c \<and> is_trail d")
    case True
    have "parse_chars (c # d # quote_units cs @ 0x22 # rest) =
        cons_result c (parse_chars (d # quote_units cs @ 0x22 # rest))"
      using surrogate_literal [of c] True by (intro parse_chars_literal) auto
    also have "parse_chars (d # quote_units cs @ 0x22 # rest) =
        cons_result d (parse_chars (quote_units cs @ 0x22 # rest))"
      using surrogate_literal [of d] True by (intro parse_chars_literal) auto
    finally have "parse_chars (c # d # quote_units cs @ 0x22 # rest) =
        cons_result c (cons_result d (parse_chars (quote_units cs @ 0x22 # rest)))" .
    moreover have "quote_units (c # d # cs) = c # d # quote_units cs" using True by simp
    ultimately show ?thesis using True 3(1) by (simp add: cons_result_def)
  next
    case False
    then have q: "quote_units (c # d # cs) = quote_unit c @ quote_units (d # cs)" by auto
    have "parse_chars (quote_units (c # d # cs) @ 0x22 # rest) =
        cons_result c (parse_chars (quote_units (d # cs) @ 0x22 # rest))"
      unfolding q using parse_chars_quote_unit [of c "quote_units (d # cs) @ 0x22 # rest"] by simp
    also have "\<dots> = Some (c # d # cs, rest)"
      using False 3(2) by (simp add: cons_result_def)
    finally show ?thesis .
  qed
qed

subsection \<open>Reading back a serialised value\<close>

declare parse_value.simps [simp del] parse_elements.simps [simp del] parse_members.simps [simp del]

lemma skip_ws_nonws: "\<not> is_json_ws c \<Longrightarrow> skip_ws (c # cs) = c # cs"
  by (simp add: skip_ws_def)

lemma skip_ws_Nil [simp]: "skip_ws [] = []"
  by (simp add: skip_ws_def)

lemma digit_dispatch:
  "is_digit c \<Longrightarrow> \<not> is_json_ws c \<and> c \<noteq> 0x7B \<and> c \<noteq> 0x5B \<and> c \<noteq> 0x22 \<and> c \<noteq> 0x74 \<and> c \<noteq> 0x66 \<and> c \<noteq> 0x6E \<and> c \<noteq> 0x5D \<and> c \<noteq> 0x7D"
  by (auto simp: is_digit_def is_json_ws_def)

lemma pv_null: "parse_value (Suc n) (js ''null'' @ t) = Some (JNull, t)"
  by (simp add: parse_value.simps skip_ws_def is_json_ws_def js_def ch_def)

lemma pv_true: "parse_value (Suc n) (js ''true'' @ t) = Some (JBool True, t)"
  by (simp add: parse_value.simps skip_ws_def is_json_ws_def js_def ch_def)

lemma pv_false: "parse_value (Suc n) (js ''false'' @ t) = Some (JBool False, t)"
  by (simp add: parse_value.simps skip_ws_def is_json_ws_def js_def ch_def)

lemma pv_string:
  "parse_value (Suc n) (0x22 # cs) = (case parse_chars cs of None \<Rightarrow> None | Some (str, r) \<Rightarrow> Some (JString str, r))"
  by (simp add: parse_value.simps skip_ws_def is_json_ws_def)

lemma pv_number:
  assumes "c = 0x2D \<or> is_digit c"
  shows "parse_value (Suc n) (c # cs) = (case parse_number (c # cs) of None \<Rightarrow> None | Some (x, r) \<Rightarrow> Some (JNumber x, r))"
proof -
  have d: "\<not> is_json_ws c \<and> c \<noteq> 0x7B \<and> c \<noteq> 0x5B \<and> c \<noteq> 0x22 \<and> c \<noteq> 0x74 \<and> c \<noteq> 0x66 \<and> c \<noteq> 0x6E"
    using assms digit_dispatch [of c] by (auto simp: is_json_ws_def)
  then show ?thesis
    by (simp add: parse_value.simps skip_ws_nonws js_def ch_def)
qed

lemma pv_array_empty: "parse_value (Suc n) (0x5B # 0x5D # t) = Some (JArray [], t)"
  by (simp add: parse_value.simps skip_ws_def is_json_ws_def)

lemma pv_array:
  "\<not> is_json_ws d \<Longrightarrow> d \<noteq> 0x5D \<Longrightarrow> parse_value (Suc n) (0x5B # d # ds) = parse_elements n (d # ds) []"
  by (simp add: parse_value.simps skip_ws_def is_json_ws_def)

lemma pv_object_empty: "parse_value (Suc n) (0x7B # 0x7D # t) = Some (JObject [], t)"
  by (simp add: parse_value.simps skip_ws_def is_json_ws_def)

lemma pv_object:
  "\<not> is_json_ws d \<Longrightarrow> d \<noteq> 0x7D \<Longrightarrow> parse_value (Suc n) (0x7B # d # ds) = parse_members n (d # ds) []"
  by (simp add: parse_value.simps skip_ws_def is_json_ws_def)

lemma pe_step:
  assumes "parse_value n s = Some (v, c # cs)" "\<not> is_json_ws c"
  shows "parse_elements (Suc n) s acc =
     (if c = 0x2C then parse_elements n cs (acc @ [v])
      else if c = 0x5D then Some (JArray (acc @ [v]), cs) else None)"
  using assms by (simp add: parse_elements.simps skip_ws_nonws)

lemma pm_step:
  assumes "parse_chars qs = Some (k, 0x3A # cs)" "parse_value n cs = Some (v, c # cs')" "\<not> is_json_ws c"
  shows "parse_members (Suc n) (0x22 # qs) acc =
     (if c = 0x2C then parse_members n cs' (put_member acc k v)
      else if c = 0x7D then Some (JObject (put_member acc k v), cs') else None)"
  using assms by (simp add: parse_members.simps skip_ws_nonws skip_ws_def is_json_ws_def)

lemma put_member_fresh: "k \<notin> fst ` set acc \<Longrightarrow> put_member acc k v = acc @ [(k, v)]"
  by (induction acc) auto

lemma positive_toString_first:
  "positive_toString s e \<noteq> [] \<and> is_digit (hd (positive_toString s e))"
proof -
  obtain d0 dt where ds: "digits_of s = d0 # dt"
    using digits_of_nonempty [of s] by (cases "digits_of s") auto
  have d0: "is_digit d0" using digits_of_digits [of s] ds by simp
  show ?thesis using d0
    by (auto simp: positive_toString_def Let_def ds hd_append)
qed

lemma Number_toString_first:
  "\<exists>c r. Number_toString (Fin m e) = c # r \<and> (c = 0x2D \<or> is_digit c)"
proof -
  obtain c r where cr: "positive_toString (nat \<bar>m\<bar>) e = c # r" "is_digit c"
    using positive_toString_first [of "nat \<bar>m\<bar>" e]
    by (cases "positive_toString (nat \<bar>m\<bar>) e") auto
  show ?thesis
    by (auto simp: Number_toString_def js_def ch_def cr)
qed

lemma stringify_first: "\<exists>c r. JSON_stringify v = c # r \<and> value_start c"
proof (cases v)
  case (JNumber x)
  show ?thesis
  proof (cases x)
    case (Fin m e)
    obtain c r where "Number_toString (Fin m e) = c # r" "c = 0x2D \<or> is_digit c"
      using Number_toString_first by blast
    then show ?thesis using JNumber Fin digit_dispatch [of c]
      by (auto simp: value_start_def is_json_ws_def)
  qed (simp_all add: JNumber js_def ch_def value_start_def is_json_ws_def)
qed (simp_all add: js_def ch_def value_start_def is_json_ws_def QuoteJSONString_def)

lemma delim_sep [simp]: "delim (0x2C # t)" "delim (0x5D # t)" "delim (0x7D # t)" "delim []"
  by (simp_all add: delim_def is_digit_def)

lemma ws_sep [simp]: "\<not> is_json_ws 0x2C" "\<not> is_json_ws 0x5D" "\<not> is_json_ws 0x7D" "\<not> is_json_ws 0x22"
  by (simp_all add: is_json_ws_def)

lemma roundtrip_aux:
  "json_ok v \<Longrightarrow> delim t \<Longrightarrow> 2 * length (JSON_stringify v) < fuel
     \<Longrightarrow> parse_value fuel (JSON_stringify v @ t) = Some (v, t)"
  "elements_ok xs \<Longrightarrow> xs \<noteq> [] \<Longrightarrow> 2 * length (stringify_elements xs) + 1 < fuel
     \<Longrightarrow> parse_elements fuel (stringify_elements xs @ 0x5D # t) acc = Some (JArray (acc @ xs), t)"
  "members_ok kvs \<Longrightarrow> kvs \<noteq> [] \<Longrightarrow> distinct (map fst (acc' @ kvs))
     \<Longrightarrow> 2 * length (stringify_members kvs) + 1 < fuel
     \<Longrightarrow> parse_members fuel (stringify_members kvs @ 0x7D # t) acc' = Some (JObject (acc' @ kvs), t)"
proof (induction v and xs and kvs arbitrary: fuel t and fuel t acc and fuel t acc'
    rule: JSON_stringify_stringify_elements_stringify_members.induct)
  case 1
  then obtain n where "fuel = Suc n" by (cases fuel) auto
  then show ?case by (simp add: pv_null)
next
  case (2 b)
  then obtain n where "fuel = Suc n" by (cases fuel) auto
  then show ?case by (simp add: pv_true pv_false)
next
  case (3 x)
  then obtain n where n: "fuel = Suc n" by (cases fuel) auto
  from 3(1) obtain m e where x: "x = Fin m e" and ok: "num_ok (Fin m e)"
    by (cases x) (auto simp: num_ok_def)
  obtain c r where cr: "Number_toString (Fin m e) = c # r" "c = 0x2D \<or> is_digit c"
    using Number_toString_first by blast
  have "parse_value (Suc n) ((c # r) @ t) =
      (case parse_number ((c # r) @ t) of None \<Rightarrow> None | Some (x, r) \<Rightarrow> Some (JNumber x, r))"
    using pv_number [OF cr(2)] by simp
  then show ?case
    using parse_number_toString [OF ok 3(2)] by (simp add: n x cr(1) [symmetric])
next
  case (4 s)
  then obtain n where n: "fuel = Suc n" by (cases fuel) auto
  show ?case
    by (simp add: n QuoteJSONString_def pv_string parse_chars_quote_units)
next
  case (5 xs)
  then obtain n where n: "fuel = Suc n" by (cases fuel) auto
  show ?case
  proof (cases "xs = []")
    case True
    then show ?thesis by (simp add: n pv_array_empty)
  next
    case False
    then obtain x xs' where xs: "xs = x # xs'" by (cases xs) auto
    obtain c r where cr: "JSON_stringify x = c # r" "value_start c"
      using stringify_first by blast
    obtain r' where first: "stringify_elements xs @ 0x5D # t = c # r'"
      using cr(1) xs by (cases xs') auto
    have "parse_value (Suc n) (0x5B # c # r') = parse_elements n (c # r') []"
      using cr(2) by (intro pv_array) (auto simp: value_start_def)
    moreover have "parse_elements n (stringify_elements xs @ 0x5D # t) [] = Some (JArray ([] @ xs), t)"
      using 5(2) False 5(4) by (intro 5(1)) (auto simp: n)
    ultimately show ?thesis by (simp add: n first)
  qed
next
  case (6 kvs)
  then obtain n where n: "fuel = Suc n" by (cases fuel) auto
  show ?case
  proof (cases "kvs = []")
    case True
    then show ?thesis by (simp add: n pv_object_empty)
  next
    case False
    then obtain k v kvs' where kvs: "kvs = (k, v) # kvs'" by (cases kvs) auto
    obtain r' where first: "stringify_members kvs @ 0x7D # t = 0x22 # r'"
      using kvs by (cases kvs') (auto simp: QuoteJSONString_def)
    have "parse_value (Suc n) (0x7B # 0x22 # r') = parse_members n (0x22 # r') []"
      by (intro pv_object) auto
    moreover have "parse_members n (stringify_members kvs @ 0x7D # t) [] = Some (JObject ([] @ kvs), t)"
      using 6(2) False 6(4) by (intro 6(1)) (auto simp: n)
    ultimately show ?thesis by (simp add: n first)
  qed
next
  case 7
  then show ?case by simp
next
  case (8 x)
  then obtain n where n: "fuel = Suc n" by (cases fuel) auto
  have "parse_value n (JSON_stringify x @ 0x5D # t) = Some (x, 0x5D # t)"
    using 8(2,4) by (intro 8(1)) (auto simp: n)
  then show ?case using pe_step [of n "JSON_stringify x @ 0x5D # t" x "0x5D" t acc]
    by (simp add: n)
next
  case (9 x y ys)
  then obtain n where n: "fuel = Suc n" by (cases fuel) auto
  let ?rest = "stringify_elements (y # ys) @ 0x5D # t"
  have "parse_value n (JSON_stringify x @ 0x2C # ?rest) = Some (x, 0x2C # ?rest)"
    using 9(3,5) by (intro 9(1)) (auto simp: n)
  then have "parse_elements (Suc n) (JSON_stringify x @ 0x2C # ?rest) acc = parse_elements n ?rest (acc @ [x])"
    using pe_step [of n "JSON_stringify x @ 0x2C # ?rest" x "0x2C" ?rest acc] by simp
  moreover have "parse_elements n ?rest (acc @ [x]) = Some (JArray ((acc @ [x]) @ y # ys), t)"
    using 9(3,5) by (intro 9(2)) (auto simp: n)
  ultimately show ?case by (simp add: n)
next
  case 10
  then show ?case by simp
next
  case (11 k v)
  then obtain n where n: "fuel = Suc n" by (cases fuel) auto
  let ?qs = "quote_units k @ 0x22 # 0x3A # JSON_stringify v @ 0x7D # t"
  have 1: "parse_chars ?qs = Some (k, 0x3A # JSON_stringify v @ 0x7D # t)"
    by (rule parse_chars_quote_units)
  have 2: "parse_value n (JSON_stringify v @ 0x7D # t) = Some (v, 0x7D # t)"
    using 11(2,5) by (intro 11(1)) (auto simp: n QuoteJSONString_def)
  have 3: "put_member acc' k v = acc' @ [(k, v)]"
    using 11(4) by (intro put_member_fresh) auto
  show ?case using pm_step [OF 1 2, of acc'] 3
    by (simp add: n QuoteJSONString_def)
next
  case (12 k v p ps)
  then obtain n where n: "fuel = Suc n" by (cases fuel) auto
  let ?rest = "stringify_members (p # ps) @ 0x7D # t"
  let ?qs = "quote_units k @ 0x22 # 0x3A # JSON_stringify v @ 0x2C # ?rest"
  have 1: "parse_chars ?qs = Some (k, 0x3A # JSON_stringify v @ 0x2C # ?rest)"
    by (rule parse_chars_quote_units)
  have 2: "parse_value n (JSON_stringify v @ 0x2C # ?rest) = Some (v, 0x2C # ?rest)"
    using 12(3,6) by (intro 12(1)) (auto simp: n QuoteJSONString_def)
  have 3: "put_member acc' k v = acc' @ [(k, v)]"
    using 12(5) by (intro put_member_fresh) auto
  have 4: "parse_members n ?rest (acc' @ [(k, v)]) = Some (JObject ((acc' @ [(k, v)]) @ p # ps), t)"
    using 12(3,5,6) by (intro 12(2)) (auto simp: n QuoteJSONString_def)
  show ?case using pm_step [OF 1 2, of acc'] 3 4
    by (simp add: n QuoteJSONString_def)
qed

theorem JSON_roundtrip: "json_ok v \<Longrightarrow> JSON_parse (JSON_stringify v) = Inr v"
  using roundtrip_aux(1) [of v "[]" "Suc (length (JSON_stringify v) + length (JSON_stringify v))"]
  by (simp add: JSON_parse_def)

section \<open>Facts about the operations\<close>

lemma JSON_parse_null: "JSON_parse (js ''null'') = Inr JNull"
  using pv_null [of "length (js ''null'') + length (js ''null'')" "[]"]
  by (simp add: JSON_parse_def)

lemma JSON_parse_item_None: "JSON_parse_item None = Inr JNull"
  by (simp add: JSON_parse_item_def JSON_parse_null)

lemma JSON_parse_item_Some: "JSON_parse_item (Some s) = JSON_parse s"
  by (simp add: JSON_parse_item_def)

lemma JSON_parse_cases: "JSON_parse s = Inl SyntaxError \<or> (\<exists>v. JSON_parse s = Inr v)"
  by (simp add: JSON_parse_def split: option.split prod.split)

lemma EXPIRE_nonempty: "EXPIRE \<noteq> []"
  by (simp add: EXPIRE_def js_def)

lemma fullKey_neq_expirationKey: "getFullKey st key \<noteq> getExpirationKey st key"
  by (simp add: getExpirationKey_def EXPIRE_nonempty)

lemma key_fields [simp]:
  "getFullKey (st\<lparr>console := c\<rparr>) key = getFullKey st key"
  "getExpirationKey (st\<lparr>console := c\<rparr>) key = getExpirationKey st key"
  "backend (st\<lparr>console := c\<rparr>) = backend st"
  by (simp_all add: getFullKey_def getExpirationKey_def backend_def split: StorageType.split)

lemma remove_backend:
  "backend (remove st key) = removeItem (removeItem (backend st) (getFullKey st key)) (getExpirationKey st key)"
  by (simp add: remove_def Let_def)

lemma remove_fields [simp]:
  "DOMAIN (remove st key) = DOMAIN st"
  "store (remove st key) = store st"
  "console (remove st key) = console st"
  by (simp_all add: remove_def Let_def)

lemma remove_keys [simp]:
  "getFullKey (remove st key) k = getFullKey st k"
  "getExpirationKey (remove st key) k = getExpirationKey st k"
  by (simp_all add: getFullKey_def getExpirationKey_def)

lemma getItem_remove:
  "getItem (backend (remove st key)) k =
     (if k = getFullKey st key \<or> k = getExpirationKey st key then None else getItem (backend st) k)"
  by (simp add: remove_backend getItem_removeItem)

lemma mk_fin_finite: "\<exists>m' e'. mk_fin m e = Fin m' e'"
proof (induction m e rule: mk_fin.induct)
  case (1 m e)
  then show ?case by (subst mk_fin.simps) auto
qed

lemma mk_fin_not_NaN [simp]: "mk_fin m e \<noteq> NaN"
  using mk_fin_finite [of m e] by auto

text \<open>What \<open>set\<close> writes under the full key.\<close>

definition stored_text :: "json \<Rightarrow> jsstring" where
  "stored_text v = (case v of JString s \<Rightarrow> s | JNumber n \<Rightarrow> Number_toString n | _ \<Rightarrow> JSON_stringify v)"

lemma ToString_stored:
  "ToString (if typeof_js v = js ''object'' then JString (JSON_stringify v) else v) = Inr (stored_text v)"
  by (cases v) (simp_all add: stored_text_def js_def ch_def)

lemma timeFormats_keys: "map fst (timeFormats h d) = js ''hdms''"
  by (simp add: timeFormats_def js_def)

lemma timeFormats_lookup:
  "c \<in> set (js ''hdms'') \<Longrightarrow> \<exists>f. map_of (timeFormats h d) c = Some f"
  by (auto simp: timeFormats_def js_def)

definition accepted :: "jsstring \<Rightarrow> bool" where
  "accepted spec = (2 \<le> length spec \<and> last spec \<in> set (js ''hdms'') \<and> \<not> isNaN (StringToNumber (remove1 (last spec) spec)))"

lemma setExpiration_rejected:
  "\<not> accepted spec \<Longrightarrow>
   setExpiration h st key spec = Inr (st\<lparr>console := console st @ [ConsoleWarn expiration_warning]\<rparr>)"
  by (auto simp: setExpiration_def Let_def accepted_def timeFormats_keys)

lemma setExpiration_accepted:
  assumes "accepted spec"
  shows "\<exists>tv. setExpiration h st key spec =
     Inr (with_backend (\<lambda>S. setItem S (getExpirationKey st key) (JSON_stringify (JNumber (number_of_time tv)))) st)"
proof -
  from assms have ne: "spec \<noteq> []" and l: "last spec \<in> set (js ''hdms'')"
    and n: "\<not> isNaN (StringToNumber (remove1 (last spec) spec))" and len: "\<not> length spec < 2"
    by (auto simp: accepted_def)
  obtain f where f: "map_of (timeFormats h (Date_now h)) (last spec) = Some f"
    using timeFormats_lookup [OF l] by blast
  have "setExpiration h st key spec =
     Inr (with_backend (\<lambda>S. setItem S (getExpirationKey st key)
        (JSON_stringify (JNumber (number_of_time (f (StringToNumber (remove1 (last spec) spec))))))) st)"
    using ne l n len f by (auto simp: setExpiration_def Let_def timeFormats_keys)
  then show ?thesis by blast
qed

lemma setExpiration_total: "\<exists>st1. setExpiration h st key spec = Inr st1"
  using setExpiration_rejected [of spec h st key] setExpiration_accepted [of spec h st key]
  by (cases "accepted spec") auto

lemma set_localit_None:
  "key \<noteq> [] \<Longrightarrow> set_localit h st key v None =
     Inr (with_backend (\<lambda>S. setItem S (getFullKey st key) (stored_text v)) st)"
  by (simp add: set_localit_def ToString_stored Let_def)

lemmas eval_json =
  JSON_parse_def JSON_parse_item_def parse_value.simps parse_elements.simps parse_members.simps
  parse_chars.simps skip_ws_def is_json_ws_def parse_number_def parse_unsigned_def parse_int_def
  parse_frac_def parse_exp_def parse_sign_def nat_of_digits_def digit_val_def is_digit_def
  mk_fin.simps cons_result_def unescape_def hex4_def hex_val_def js_def ch_def

lemmas eval_state =
  initial_def backend_def with_backend_def getItem_def removeItem_def getFullKey_def
  getExpirationKey_def EXPIRE_def hasExpirationDate_def

lemma hasExpired_cong:
  "getItem (backend st1) (getExpirationKey st1 key) = getItem (backend st) (getExpirationKey st key)
   \<Longrightarrow> hasExpired h st1 key = hasExpired h st key"
  by (simp add: hasExpired_def)

lemma get_read:
  assumes "\<not> hasExpirationDate st key \<or> hasExpired h st key = Inr False"
  shows "get h st key =
     Inr (case getItem (backend st) (getFullKey st key) of
            None \<Rightarrow> JNull
          | Some raw \<Rightarrow> (case JSON_parse raw of Inr v \<Rightarrow> v | Inl e \<Rightarrow> JString raw), st)"
proof (cases "getItem (backend st) (getFullKey st key)")
  case None
  then show ?thesis using assms
    by (auto simp: get_def Let_def JSON_parse_item_None)
next
  case (Some raw)
  then show ?thesis using assms
    by (cases "JSON_parse raw") (auto simp: get_def Let_def JSON_parse_item_Some)
qed

lemma get_expired:
  assumes "hasExpirationDate st key" "hasExpired h st key = Inr True"
  shows "get h st key = Inr (JNull, remove st key)"
  using assms by (simp add: get_def Let_def)

lemma hasExpirationDate_remove: "\<not> hasExpirationDate (remove st key) key"
  by (simp add: hasExpirationDate_def getItem_remove)

text \<open>The program \<open>set(key, v); return get(key)\<close>; the clock may advance between the calls.\<close>

definition set_then_get :: "host \<Rightarrow> host \<Rightarrow> state \<Rightarrow> jsstring \<Rightarrow> json \<Rightarrow> exn + json" where
  "set_then_get h h' st key v =
     (case set_localit h st key v None of
        Inl e \<Rightarrow> Inl e
      | Inr st1 \<Rightarrow> (case get h' st1 key of Inl e \<Rightarrow> Inl e | Inr (r, st2) \<Rightarrow> Inr r))"

lemma stored_text_stringify:
  "json_ok v \<Longrightarrow> \<forall>s. v \<noteq> JString s \<Longrightarrow> stored_text v = JSON_stringify v"
  by (cases v) (auto simp: stored_text_def num_ok_def split: jsnumber.splits)

lemma set_then_get_value:
  assumes key: "key \<noteq> []"
    and fresh: "\<not> hasExpirationDate st key \<or> hasExpired h' st key = Inr False"
  shows "set_then_get h h' st key v =
     Inr (case JSON_parse (stored_text v) of Inr r \<Rightarrow> r | Inl e \<Rightarrow> JString (stored_text v))"
proof -
  let ?st1 = "with_backend (\<lambda>S. setItem S (getFullKey st key) (stored_text v)) st"
  have s: "set_localit h st key v None = Inr ?st1" using key by (rule set_localit_None)
  have x: "getItem (backend ?st1) (getExpirationKey ?st1 key) = getItem (backend st) (getExpirationKey st key)"
    using fullKey_neq_expirationKey [of st key] by (simp add: getItem_setItem)
  have "\<not> hasExpirationDate ?st1 key \<or> hasExpired h' ?st1 key = Inr False"
    using fresh x hasExpired_cong [OF x, of h'] by (simp add: hasExpirationDate_def)
  then have "get h' ?st1 key =
     Inr (case getItem (backend ?st1) (getFullKey ?st1 key) of
            None \<Rightarrow> JNull
          | Some raw \<Rightarrow> (case JSON_parse raw of Inr v \<Rightarrow> v | Inl e \<Rightarrow> JString raw), ?st1)"
    by (rule get_read)
  then have "get h' ?st1 key =
     Inr (case JSON_parse (stored_text v) of Inr r \<Rightarrow> r | Inl e \<Rightarrow> JString (stored_text v), ?st1)"
    by (simp add: getItem_setItem)
  then show ?thesis by (simp add: set_then_get_def s)
qed

section \<open>The expiration argument\<close>

text \<open>
  The grammar in the words of the specification: one or more digits followed by exactly
  one unit character from s, m, h, d.
\<close>

definition spec_grammar :: "jsstring \<Rightarrow> bool" where
  "spec_grammar spec =
     (spec \<noteq> [] \<and> butlast spec \<noteq> [] \<and> list_all is_digit (butlast spec) \<and> last spec \<in> set (js ''smhd''))"

lemma digit_not_str_ws: "is_digit c \<Longrightarrow> \<not> is_str_ws c"
  unfolding is_digit_def is_str_ws_def word_le_nat_alt by auto

lemma digit_not_letter:
  "is_digit c \<Longrightarrow> c \<notin> set (js ''smhd'') \<and> c \<noteq> 0x78 \<and> c \<noteq> 0x58 \<and> c \<noteq> 0x6F \<and> c \<noteq> 0x4F \<and>
     c \<noteq> 0x62 \<and> c \<noteq> 0x42 \<and> c \<noteq> 0x2B \<and> c \<noteq> 0x2D \<and> c \<noteq> 0x49"
  by (auto simp: is_digit_def js_def ch_def)

lemma trim_ws_digits:
  assumes "ds \<noteq> []" "\<forall>c \<in> set ds. is_digit c"
  shows "trim_ws ds = ds"
proof -
  have h: "\<not> is_str_ws (hd ds)" using assms by (intro digit_not_str_ws) simp
  have l: "\<not> is_str_ws (hd (rev ds))" using assms by (intro digit_not_str_ws) (simp add: hd_rev)
  have 1: "dropWhile is_str_ws ds = ds" using assms(1) h by (cases ds) auto
  have 2: "dropWhile is_str_ws (rev ds) = rev ds" using assms(1) l by (cases "rev ds") auto
  show ?thesis by (simp add: trim_ws_def 1 2)
qed

lemma StrDecimalLiteral_digits:
  assumes "ds \<noteq> []" "\<forall>c \<in> set ds. is_digit c"
  shows "StrDecimalLiteral ds = mk_fin (int (nat_of_digits ds)) 0"
proof -
  obtain c cs where ds: "ds = c # cs" using assms(1) by (cases ds) auto
  have c: "is_digit c" using assms(2) ds by simp
  have sg: "parse_sign ds = (1, ds)"
    using digit_not_letter [OF c] by (simp add: parse_sign_def ds)
  have inf: "ds \<noteq> js ''Infinity''"
    using digit_not_letter [OF c] by (auto simp: ds js_def ch_def)
  have tw: "takeWhile is_digit ds = ds" "dropWhile is_digit ds = []"
    using assms(2) by simp_all
  show ?thesis
    using assms(1) by (simp add: StrDecimalLiteral_def sg inf tw Let_def parse_exp_def)
qed

lemma StringToNumber_digits:
  assumes "ds \<noteq> []" "\<forall>c \<in> set ds. is_digit c"
  shows "StringToNumber ds = mk_fin (int (nat_of_digits ds)) 0"
proof -
  have t: "trim_ws ds = ds" using assms by (rule trim_ws_digits)
  have d: "StrDecimalLiteral ds = mk_fin (int (nat_of_digits ds)) 0"
    using assms by (rule StrDecimalLiteral_digits)
  have u: "StringToNumber ds =
      (case ds of
         c0 # c1 # r \<Rightarrow>
           if c0 = 0x30 \<and> (c1 = 0x78 \<or> c1 = 0x58)
           then (case radix_value 16 r of None \<Rightarrow> NaN | Some v \<Rightarrow> mk_fin (int v) 0)
           else if c0 = 0x30 \<and> (c1 = 0x6F \<or> c1 = 0x4F)
           then (case radix_value 8 r of None \<Rightarrow> NaN | Some v \<Rightarrow> mk_fin (int v) 0)
           else if c0 = 0x30 \<and> (c1 = 0x62 \<or> c1 = 0x42)
           then (case radix_value 2 r of None \<Rightarrow> NaN | Some v \<Rightarrow> mk_fin (int v) 0)
           else StrDecimalLiteral ds
       | _ \<Rightarrow> StrDecimalLiteral ds)"
    using assms(1) unfolding StringToNumber_def Let_def t by simp
  show ?thesis
  proof (cases ds)
    case Nil
    with assms(1) show ?thesis by simp
  next
    case (Cons c0 r)
    show ?thesis
    proof (cases r)
      case Nil
      then show ?thesis using Cons d u by simp
    next
      case (Cons c1 r')
      have "is_digit c1" using assms(2) \<open>ds = c0 # r\<close> Cons by simp
      then have "c1 \<noteq> 0x78 \<and> c1 \<noteq> 0x58 \<and> c1 \<noteq> 0x6F \<and> c1 \<noteq> 0x4F \<and> c1 \<noteq> 0x62 \<and> c1 \<noteq> 0x42"
        using digit_not_letter by blast
      then show ?thesis using Cons \<open>ds = c0 # r\<close> d u by simp
    qed
  qed
qed

lemma spec_grammar_accepted: "spec_grammar spec \<Longrightarrow> accepted spec"
proof -
  assume g: "spec_grammar spec"
  define ds where "ds = butlast spec"
  define u where "u = last spec"
  have spec: "spec = ds @ [u]" using g by (simp add: spec_grammar_def ds_def u_def)
  have ds: "ds \<noteq> []" "\<forall>c \<in> set ds. is_digit c" and u: "u \<in> set (js ''smhd'')"
    using g by (simp_all add: spec_grammar_def ds_def u_def list_all_iff)
  have "u \<notin> set ds" using ds(2) u digit_not_letter by blast
  then have r: "remove1 u (ds @ [u]) = ds" by (simp add: remove1_append)
  have n: "StringToNumber ds \<noteq> NaN" using StringToNumber_digits [OF ds] by simp
  have l: "2 \<le> length spec" using ds(1) spec by (cases ds) auto
  have "u \<in> set (js ''hdms'')" using u by (auto simp: js_def)
  then show ?thesis using l n r by (simp add: accepted_def spec isNaN_def)
qed

text \<open>
  The conditions in the words of the specification: at least two characters, a trailing
  unit, and a numeric prefix (the text before the unit) that \<open>Number\<close> does not turn into
  \<open>NaN\<close>.
\<close>

definition valid_spec :: "jsstring \<Rightarrow> bool" where
  "valid_spec spec =
     (2 \<le> length spec \<and> last spec \<in> set (js ''smhd'') \<and> \<not> isNaN (StringToNumber (butlast spec)))"

lemma accepted_valid_spec:
  assumes "last spec \<notin> set (butlast spec)"
  shows "accepted spec = valid_spec spec"
proof (cases "spec = []")
  case True
  then show ?thesis by (simp add: accepted_def valid_spec_def)
next
  case False
  then have "spec = butlast spec @ [last spec]" by simp
  then have "remove1 (last spec) spec = remove1 (last spec) (butlast spec @ [last spec])" by simp
  also have "\<dots> = butlast spec" using assms by (simp add: remove1_append)
  finally have r: "remove1 (last spec) spec = butlast spec" .
  have "set (js ''hdms'') = set (js ''smhd'')" by (auto simp: js_def)
  then show ?thesis by (simp add: accepted_def valid_spec_def r)
qed

lemma spec_grammar_unit_once: "spec_grammar spec \<Longrightarrow> last spec \<notin> set (butlast spec)"
  using digit_not_letter by (auto simp: spec_grammar_def list_all_iff)

section \<open>Expiration entries and their values\<close>

definition endsWith :: "jsstring \<Rightarrow> jsstring \<Rightarrow> bool" where
  "endsWith s suf = startsWith (rev s) (rev suf)"

text \<open>
  The invariant of the claim, for one Storage: a key followed by \<open>_expiration_date\<close> is
  present only if the key itself is.
\<close>

definition expiration_invariant :: "Storage \<Rightarrow> bool" where
  "expiration_invariant S = (\<forall>K. getItem S (K @ EXPIRE) \<noteq> None \<longrightarrow> getItem S K \<noteq> None)"

text \<open>
  What the operations preserve: in addition, no expiration entry belongs to a key that
  itself ends in \<open>_expiration_date\<close>.
\<close>

definition store_ok :: "Storage \<Rightarrow> bool" where
  "store_ok S = (\<forall>K. getItem S (K @ EXPIRE) \<noteq> None \<longrightarrow> getItem S K \<noteq> None \<and> \<not> endsWith K EXPIRE)"

definition state_ok :: "state \<Rightarrow> bool" where
  "state_ok st = (store_ok (localStorage st) \<and> store_ok (sessionStorage st))"

text \<open>
  A sequence of calls in which no \<open>set\<close> is given a key whose full key, under the domain
  current at the call, ends in \<open>_expiration_date\<close>.
\<close>

fun collision_free :: "(host \<times> operation) list \<Rightarrow> state \<Rightarrow> bool" where
  "collision_free [] st = True"
| "collision_free ((h, c) # cs) st =
     ((case c of Set key v e \<Rightarrow> \<not> endsWith (getFullKey st key) EXPIRE | _ \<Rightarrow> True)
      \<and> collision_free cs (step h c st))"

definition other_storage :: "state \<Rightarrow> Storage" where
  "other_storage st = (case store st of LocalStorage \<Rightarrow> sessionStorage st | SessionStorage \<Rightarrow> localStorage st)"

lemma endsWith_iff: "endsWith s suf \<longleftrightarrow> (\<exists>p. s = p @ suf)"
proof
  assume "endsWith s suf"
  then obtain ss where "rev s = rev suf @ ss" by (auto simp: endsWith_def startsWith_iff)
  then have "s = rev ss @ suf" by (metis rev_append rev_rev_ident)
  then show "\<exists>p. s = p @ suf" by blast
next
  assume "\<exists>p. s = p @ suf"
  then show "endsWith s suf" by (auto simp: endsWith_def startsWith_iff)
qed

lemma store_ok_invariant: "store_ok S \<Longrightarrow> expiration_invariant S"
  by (simp add: store_ok_def expiration_invariant_def)

lemma store_ok_empty: "store_ok []"
  by (simp add: store_ok_def getItem_def)

lemma store_ok_set_value:
  assumes "store_ok S" "\<not> endsWith k EXPIRE"
  shows "store_ok (setItem S k v)"
  unfolding store_ok_def
proof (intro allI impI)
  fix K
  assume p: "getItem (setItem S k v) (K @ EXPIRE) \<noteq> None"
  have "K @ EXPIRE \<noteq> k" using assms(2) by (auto simp: endsWith_iff)
  then have "getItem S (K @ EXPIRE) \<noteq> None" using p by (simp add: getItem_setItem)
  then have "getItem S K \<noteq> None \<and> \<not> endsWith K EXPIRE" using assms(1) by (simp add: store_ok_def)
  then show "getItem (setItem S k v) K \<noteq> None \<and> \<not> endsWith K EXPIRE"
    by (simp add: getItem_setItem)
qed

lemma store_ok_set_expiration:
  assumes "store_ok S" "getItem S k \<noteq> None" "\<not> endsWith k EXPIRE"
  shows "store_ok (setItem S (k @ EXPIRE) v)"
  unfolding store_ok_def
proof (intro allI impI)
  fix K
  assume p: "getItem (setItem S (k @ EXPIRE) v) (K @ EXPIRE) \<noteq> None"
  have k: "k \<noteq> k @ EXPIRE" by (simp add: EXPIRE_nonempty)
  show "getItem (setItem S (k @ EXPIRE) v) K \<noteq> None \<and> \<not> endsWith K EXPIRE"
  proof (cases "K = k")
    case True
    then show ?thesis using assms(2,3) k by (simp add: getItem_setItem)
  next
    case False
    then have "getItem S (K @ EXPIRE) \<noteq> None" using p by (simp add: getItem_setItem)
    then have "getItem S K \<noteq> None \<and> \<not> endsWith K EXPIRE" using assms(1) by (simp add: store_ok_def)
    then show ?thesis by (simp add: getItem_setItem)
  qed
qed

lemma store_ok_remove:
  assumes "store_ok S"
  shows "store_ok (removeItem (removeItem S k) (k @ EXPIRE))"
  unfolding store_ok_def
proof (intro allI impI)
  fix K
  assume p: "getItem (removeItem (removeItem S k) (k @ EXPIRE)) (K @ EXPIRE) \<noteq> None"
  then have ne: "K \<noteq> k" and "getItem S (K @ EXPIRE) \<noteq> None"
    by (auto simp: getItem_removeItem split: if_splits)
  then have ok: "getItem S K \<noteq> None" "\<not> endsWith K EXPIRE"
    using assms by (simp_all add: store_ok_def)
  then have "K \<noteq> k @ EXPIRE" by (auto simp: endsWith_iff)
  then show "getItem (removeItem (removeItem S k) (k @ EXPIRE)) K \<noteq> None \<and> \<not> endsWith K EXPIRE"
    using ne ok by (simp add: getItem_removeItem)
qed

lemma includes_append: "includes_js K pat \<Longrightarrow> includes_js (K @ suf) pat"
  unfolding includes_iff by (metis append.assoc)

lemma store_ok_without_pattern:
  assumes "store_ok S"
    and "\<And>k. getItem S' k =
           (if includes_js k pat \<and> k \<notin> set prototype_properties then None else getItem S k)"
  shows "store_ok S'"
  unfolding store_ok_def
proof (intro allI impI)
  fix K
  assume p: "getItem S' (K @ EXPIRE) \<noteq> None"
  then have n: "\<not> includes_js (K @ EXPIRE) pat" and "getItem S (K @ EXPIRE) \<noteq> None"
    by (auto simp: assms(2) expiration_key_listed split: if_splits)
  then have ok: "getItem S K \<noteq> None" "\<not> endsWith K EXPIRE"
    using assms(1) by (simp_all add: store_ok_def)
  have "\<not> includes_js K pat" using n includes_append by blast
  then show "getItem S' K \<noteq> None \<and> \<not> endsWith K EXPIRE" using ok by (simp add: assms(2))
qed

lemma state_ok_iff: "state_ok st \<longleftrightarrow> store_ok (backend st) \<and> store_ok (other_storage st)"
  by (cases "store st") (auto simp: state_ok_def backend_def other_storage_def)

lemma other_with_backend [simp]: "other_storage (with_backend f st) = other_storage st"
  by (cases "store st") (simp_all add: other_storage_def with_backend_def)

lemma other_console [simp]: "other_storage (st\<lparr>console := c\<rparr>) = other_storage st"
  by (simp add: other_storage_def split: StorageType.split)

lemma state_ok_console [simp]: "state_ok (st\<lparr>console := c\<rparr>) = state_ok st"
  by (simp add: state_ok_def)

lemma state_ok_with_backend:
  "state_ok st \<Longrightarrow> store_ok (f (backend st)) \<Longrightarrow> state_ok (with_backend f st)"
  by (simp add: state_ok_iff)

lemma state_ok_config: "state_ok st \<Longrightarrow> state_ok (config st c)"
  by (simp add: config_def Let_def state_ok_def)

lemma state_ok_setDomain: "state_ok st \<Longrightarrow> state_ok (setDomain st d)"
  by (simp add: setDomain_def state_ok_def)

lemma state_ok_bust: "state_ok st \<Longrightarrow> state_ok (bust st)"
  by (simp add: bust_def state_ok_iff clear_def store_ok_empty)

lemma state_ok_remove: "state_ok st \<Longrightarrow> state_ok (remove st key)"
proof -
  assume ok: "state_ok st"
  have o: "other_storage (remove st key) = other_storage st"
    by (simp add: remove_def Let_def)
  have "store_ok (backend (remove st key))"
    using ok store_ok_remove [of "backend st" "getFullKey st key"]
    by (simp add: remove_backend getExpirationKey_def state_ok_iff)
  then show ?thesis using ok o by (simp add: state_ok_iff)
qed

lemma other_clearDomain: "other_storage (clearDomain st arg) = other_storage st"
  using fold_clear_step_other [of st "(case arg of None \<Rightarrow> DOMAIN st | Some d \<Rightarrow> d) @ js ''_''" "keys (backend st)"]
    fold_clear_step_fields [of "(case arg of None \<Rightarrow> DOMAIN st | Some d \<Rightarrow> d) @ js ''_''" "keys (backend st)" st]
  by (cases "store st") (simp_all add: other_storage_def clearDomain_fold)

lemma state_ok_clearDomain: "state_ok st \<Longrightarrow> state_ok (clearDomain st arg)"
proof -
  assume ok: "state_ok st"
  have "store_ok (backend (clearDomain st arg))"
  proof (rule store_ok_without_pattern)
    show "store_ok (backend st)" using ok by (simp add: state_ok_iff)
    show "getItem (backend (clearDomain st arg)) k =
        (if includes_js k ((case arg of None \<Rightarrow> DOMAIN st | Some d \<Rightarrow> d) @ js ''_'') \<and>
            k \<notin> set prototype_properties
         then None
         else getItem (backend st) k)" for k
      by (rule getItem_clearDomain)
  qed
  then show ?thesis using ok by (simp add: state_ok_iff other_clearDomain)
qed

lemma get_state: "get h st key = Inr (v, st1) \<Longrightarrow> st1 = st \<or> st1 = remove st key"
  by (auto simp: get_def Let_def split: sum.splits if_splits)

lemma state_ok_get: "state_ok st \<Longrightarrow> state_ok (step h (Get key) st)"
  using get_state [of h st key] state_ok_remove [of st key]
  by (auto split: sum.splits)

lemma state_ok_getAndRemove: "state_ok st \<Longrightarrow> state_ok (step h (GetAndRemove key) st)"
proof -
  assume ok: "state_ok st"
  show ?thesis
  proof (cases "get h st key")
    case (Inl e)
    then show ?thesis using ok by (simp add: getAndRemove_def)
  next
    case (Inr p)
    obtain v st1 where p: "p = (v, st1)" by (cases p)
    have "state_ok st1" using get_state [of h st key v st1] Inr p ok state_ok_remove by auto
    then have "state_ok (remove st1 key)" by (rule state_ok_remove)
    then show ?thesis using Inr p by (simp add: getAndRemove_def)
  qed
qed

lemma state_ok_setExpiration:
  assumes "state_ok st" "getItem (backend st) (getFullKey st key) \<noteq> None"
    "\<not> endsWith (getFullKey st key) EXPIRE" "setExpiration h st key spec = Inr st1"
  shows "state_ok st1"
proof (cases "accepted spec")
  case True
  then obtain tv where "setExpiration h st key spec =
      Inr (with_backend (\<lambda>S. setItem S (getExpirationKey st key) (JSON_stringify (JNumber (number_of_time tv)))) st)"
    using setExpiration_accepted by blast
  then have st1: "st1 = with_backend (\<lambda>S. setItem S (getFullKey st key @ EXPIRE) (JSON_stringify (JNumber (number_of_time tv)))) st"
    using assms(4) by (simp add: getExpirationKey_def)
  show ?thesis unfolding st1
    using assms(1,2,3) by (intro state_ok_with_backend store_ok_set_expiration) (simp_all add: state_ok_iff)
next
  case False
  then have "st1 = st\<lparr>console := console st @ [ConsoleWarn expiration_warning]\<rparr>"
    using setExpiration_rejected [of spec h st key] assms(4) by simp
  then show ?thesis using assms(1) by simp
qed

lemma state_ok_set:
  assumes "state_ok st" "\<not> endsWith (getFullKey st key) EXPIRE"
  shows "state_ok (step h (Set key v e) st)"
proof (cases "key = []")
  case True
  then show ?thesis using assms(1) by (simp add: set_localit_def)
next
  case False
  let ?st1 = "with_backend (\<lambda>S. setItem S (getFullKey st key) (stored_text v)) st"
  have ok1: "state_ok ?st1"
    using assms by (intro state_ok_with_backend store_ok_set_value) (simp_all add: state_ok_iff)
  show ?thesis
  proof (cases "e = None \<or> e = Some []")
    case True
    then have "set_localit h st key v e = Inr ?st1"
      using False by (auto simp: set_localit_def ToString_stored Let_def)
    then show ?thesis using ok1 by simp
  next
    case ne: False
    then obtain spec where e: "e = Some spec" "spec \<noteq> []" by (cases e) auto
    have se: "set_localit h st key v e = setExpiration h ?st1 key spec"
      using False e by (simp add: set_localit_def ToString_stored Let_def)
    obtain st2 where st2: "setExpiration h ?st1 key spec = Inr st2"
      using setExpiration_total by blast
    have "state_ok st2"
      using ok1 assms(2) st2
      by (intro state_ok_setExpiration [of ?st1 key h spec st2]) (simp_all add: getItem_setItem)
    then show ?thesis using se st2 by simp
  qed
qed

lemma state_ok_step:
  assumes "state_ok st" "case c of Set key v e \<Rightarrow> \<not> endsWith (getFullKey st key) EXPIRE | _ \<Rightarrow> True"
  shows "state_ok (step h c st)"
proof (cases c)
  case (Set key v e)
  then show ?thesis using assms state_ok_set by simp
next
  case (Get key)
  then show ?thesis using assms(1) state_ok_get by simp
next
  case (GetAndRemove key)
  then show ?thesis using assms(1) state_ok_getAndRemove by simp
qed (simp_all add: assms(1) state_ok_config state_ok_remove state_ok_setDomain state_ok_clearDomain state_ok_bust)

lemma state_ok_run: "state_ok st \<Longrightarrow> collision_free ops st \<Longrightarrow> state_ok (run ops st)"
proof (induction ops arbitrary: st)
  case Nil
  then show ?case by simp
next
  case (Cons a ops)
  obtain h c where a: "a = (h, c)" by (cases a)
  have "state_ok (step h c st)" using Cons.prems a by (intro state_ok_step) simp_all
  moreover have "collision_free ops (step h c st)" using Cons.prems a by simp
  ultimately show ?case using Cons.IH a by simp
qed

section \<open>Claims\<close>

text \<open>
  C5. For every domain string \<open>d\<close>, \<open>clearDomain d\<close> is to remove from the selected Storage
  exactly the keys in which \<open>d\<close> followed by an underscore occurs. The loop visits the keys
  that \<open>Object.keys\<close> lists, and a stored key that names a property of the prototype chain
  is not among them. With the default domain, \<open>set("_proto__", 1)\<close> writes the key
  \<open>__proto__\<close>; the pattern of \<open>clearDomain("")\<close>, a single underscore, occurs in it, and
  \<open>clearDomain("")\<close> leaves it in the Storage with its value.
\<close>

theorem C5_clearDomain_misses_proto:
  "set_localit (utc_host 0 (\<lambda>s. None)) (initial [] []) (js ''_proto__'') (JNumber (Fin 1 0)) None =
     Inr (initial [(js ''__proto__'', js ''1'')] []) \<and>
   includes_js (js ''__proto__'') ([] @ js ''_'') \<and>
   clearDomain (initial [(js ''__proto__'', js ''1'')] []) (Some []) =
     initial [(js ''__proto__'', js ''1'')] [] \<and>
   getItem (backend (clearDomain (initial [(js ''__proto__'', js ''1'')] []) (Some []))) (js ''__proto__'') =
     Some (js ''1'')"
proof -
  have s: "stored_text (JNumber (Fin 1 0)) = js ''1''"
    by (simp add: stored_text_def Number_toString_def positive_toString_def Let_def
        digits_of.simps digit_char_def js_def ch_def)
  have k: "js ''_proto__'' \<noteq> []" by (simp add: js_def)
  have 1: "set_localit (utc_host 0 (\<lambda>s. None)) (initial [] []) (js ''_proto__'') (JNumber (Fin 1 0)) None =
      Inr (initial [(js ''__proto__'', js ''1'')] [])"
    using set_localit_None [OF k, of "utc_host 0 (\<lambda>s. None)" "initial [] []" "JNumber (Fin 1 0)"]
    by (simp add: s eval_state js_def ch_def)
  have 2: "includes_js (js ''__proto__'') ([] @ js ''_'')"
    by (simp add: js_def ch_def)
  have 3: "clearDomain (initial [(js ''__proto__'', js ''1'')] []) (Some []) =
      initial [(js ''__proto__'', js ''1'')] []"
    by (simp add: clearDomain_def keys_def prototype_properties_def eval_state js_def ch_def)
  have 4: "getItem (backend (initial [(js ''__proto__'', js ''1'')] [])) (js ''__proto__'') = Some (js ''1'')"
    by (simp add: eval_state)
  from 1 2 3 4 show ?thesis by simp
qed

text \<open>
  C10. When the current \<open>DOMAIN\<close> is the empty string, \<open>clearDomain()\<close> without an argument
  is to remove every key of the selected Storage that contains an underscore, and so every
  entry the library has written under any domain. Under the domain \<open>_\<close> the key \<open>proto__\<close>
  has the full key \<open>__proto__\<close>: after \<open>config({domain: "_"})\<close>, \<open>set("proto__", "x")\<close>,
  \<open>config({})\<close> and \<open>clearDomain()\<close> the domain is empty and the entry is still stored. The
  loop does not visit it, for the reason given at C5.
\<close>

theorem C10_clearDomain_keeps_proto:
  "run [(utc_host 0 (\<lambda>s. None), Config \<lparr>domain = Some (js ''_''), type = None\<rparr>),
        (utc_host 0 (\<lambda>s. None), Set (js ''proto__'') (JString (js ''x'')) None),
        (utc_host 0 (\<lambda>s. None), Config \<lparr>domain = None, type = None\<rparr>),
        (utc_host 0 (\<lambda>s. None), ClearDomain None)] (initial [] []) =
     initial [(js ''__proto__'', js ''x'')] [] \<and>
   getFullKey ((initial [] [])\<lparr>DOMAIN := js ''_''\<rparr>) (js ''proto__'') = js ''__proto__'' \<and>
   DOMAIN (initial [(js ''__proto__'', js ''x'')] []) = [] \<and>
   ch CHR ''_'' \<in> set (js ''__proto__'')"
proof -
  let ?h = "utc_host 0 (\<lambda>s. None)"
  have d: "js ''_'' \<noteq> []" and k: "js ''proto__'' \<noteq> []" by (simp_all add: js_def)
  have 1: "config (initial [] []) \<lparr>domain = Some (js ''_''), type = None\<rparr> = (initial [] [])\<lparr>DOMAIN := js ''_''\<rparr>"
    using d by (simp add: config_def Let_def initial_def)
  have 2: "set_localit ?h ((initial [] [])\<lparr>DOMAIN := js ''_''\<rparr>) (js ''proto__'') (JString (js ''x'')) None =
      Inr ((initial [(js ''__proto__'', js ''x'')] [])\<lparr>DOMAIN := js ''_''\<rparr>)"
    using set_localit_None [OF k, of ?h "(initial [] [])\<lparr>DOMAIN := js ''_''\<rparr>" "JString (js ''x'')"]
    by (simp add: stored_text_def eval_state js_def ch_def)
  have 3: "config ((initial [(js ''__proto__'', js ''x'')] [])\<lparr>DOMAIN := js ''_''\<rparr>) \<lparr>domain = None, type = None\<rparr> =
      initial [(js ''__proto__'', js ''x'')] []"
    by (simp add: config_def Let_def initial_def)
  have 4: "clearDomain (initial [(js ''__proto__'', js ''x'')] []) None = initial [(js ''__proto__'', js ''x'')] []"
    by (simp add: clearDomain_def keys_def prototype_properties_def eval_state js_def ch_def)
  have r: "run [(?h, Config \<lparr>domain = Some (js ''_''), type = None\<rparr>),
        (?h, Set (js ''proto__'') (JString (js ''x'')) None),
        (?h, Config \<lparr>domain = None, type = None\<rparr>),
        (?h, ClearDomain None)] (initial [] []) = initial [(js ''__proto__'', js ''x'')] []"
    by (simp add: 1 2 3 4)
  have f: "getFullKey ((initial [] [])\<lparr>DOMAIN := js ''_''\<rparr>) (js ''proto__'') = js ''__proto__''"
    by (simp add: getFullKey_def js_def)
  have e: "DOMAIN (initial [(js ''__proto__'', js ''x'')] []) = []"
    by (simp add: initial_def)
  have u: "ch CHR ''_'' \<in> set (js ''__proto__'')" by (simp add: js_def)
  from r f e u show ?thesis by simp
qed

text \<open>
  C8. \<open>setDomain d\<close> sets the current domain to \<open>d\<close>, whatever \<open>d\<close> is, and changes nothing
  else: the selected Storage, both Storage objects and the console are as before.
\<close>

theorem C8_setDomain_frame:
  "DOMAIN (setDomain st d) = d \<and>
   store (setDomain st d) = store st \<and>
   localStorage (setDomain st d) = localStorage st \<and>
   sessionStorage (setDomain st d) = sessionStorage st \<and>
   console (setDomain st d) = console st \<and>
   backend (setDomain st d) = backend st"
  by (simp add: setDomain_def backend_def split: StorageType.split)

text \<open>
  C6. \<open>set\<close> with the empty key writes nothing: it returns normally, both Storage objects
  (so the key set and every stored value), the domain and the selection are unchanged, and
  the console has one more error line. This holds for every value and expiration argument.
\<close>

theorem C6_set_empty_key:
  "\<exists>st1. set_localit h st [] v e = Inr st1 \<and>
     localStorage st1 = localStorage st \<and> sessionStorage st1 = sessionStorage st \<and>
     backend st1 = backend st \<and> keys (backend st1) = keys (backend st) \<and>
     DOMAIN st1 = DOMAIN st \<and> store st1 = store st \<and>
     console st1 = console st @ [ConsoleError (js ''Localit: provide a key to store the value'')]"
  by (simp add: set_localit_def)

theorem C6_set_empty_key_witness:
  "set_localit (utc_host 0 (\<lambda>s. None)) (initial [(js ''_a'', js ''1'')] []) [] (JString (js ''x'')) (Some (js ''5s'')) =
     Inr ((initial [(js ''_a'', js ''1'')] [])\<lparr>console := [ConsoleError (js ''Localit: provide a key to store the value'')]\<rparr>)"
proof -
  obtain st1 where 1: "set_localit (utc_host 0 (\<lambda>s. None)) (initial [(js ''_a'', js ''1'')] []) [] (JString (js ''x'')) (Some (js ''5s'')) = Inr st1"
    and 2: "localStorage st1 = localStorage (initial [(js ''_a'', js ''1'')] [])"
      "sessionStorage st1 = sessionStorage (initial [(js ''_a'', js ''1'')] [])"
      "DOMAIN st1 = DOMAIN (initial [(js ''_a'', js ''1'')] [])"
      "store st1 = store (initial [(js ''_a'', js ''1'')] [])"
      "console st1 = console (initial [(js ''_a'', js ''1'')] []) @ [ConsoleError (js ''Localit: provide a key to store the value'')]"
    using C6_set_empty_key [of "utc_host 0 (\<lambda>s. None)" "initial [(js ''_a'', js ''1'')] []" "JString (js ''x'')" "Some (js ''5s'')"]
    by blast
  have "st1 = (initial [(js ''_a'', js ''1'')] [])\<lparr>console := [ConsoleError (js ''Localit: provide a key to store the value'')]\<rparr>"
    using 2 by (simp add: initial_def)
  with 1 show ?thesis by simp
qed

text \<open>
  C7, as the code has it. \<open>get\<close> decides whether the key has expired before it reads, and
  outside the \<open>try\<close>. When the key has no expiration entry, or has one whose text is JSON and
  whose value \<open>new Date\<close> converts to a date that is invalid or is an instant not before the
  current time, \<open>get\<close> reads the full key and leaves the state as it is: a stored string
  that is a JSON text comes back as the value it denotes, any other stored string comes
  back unchanged as a string, and a missing item comes back as \<open>null\<close>. In all three cases
  \<open>get\<close> returns normally.
\<close>

theorem C7_get_parse_or_raw:
  assumes "getItem (backend st) (getExpirationKey st key) = None \<or>
           (\<exists>e d tv. getItem (backend st) (getExpirationKey st key) = Some e \<and>
              JSON_parse e = Inr d \<and> new_Date h d = Inr tv \<and> (\<forall>t. tv = Some t \<longrightarrow> Date_now h \<le> t))"
  shows "(\<forall>raw v. getItem (backend st) (getFullKey st key) = Some raw \<and> JSON_parse raw = Inr v
            \<longrightarrow> get h st key = Inr (v, st)) \<and>
         (\<forall>raw. getItem (backend st) (getFullKey st key) = Some raw \<and> JSON_parse raw = Inl SyntaxError
            \<longrightarrow> get h st key = Inr (JString raw, st)) \<and>
         (getItem (backend st) (getFullKey st key) = None \<longrightarrow> get h st key = Inr (JNull, st))"
proof -
  from assms have "\<not> hasExpirationDate st key \<or> hasExpired h st key = Inr False"
  proof
    assume "getItem (backend st) (getExpirationKey st key) = None"
    then show ?thesis by (simp add: hasExpirationDate_def)
  next
    assume "\<exists>e d tv. getItem (backend st) (getExpirationKey st key) = Some e \<and>
              JSON_parse e = Inr d \<and> new_Date h d = Inr tv \<and> (\<forall>t. tv = Some t \<longrightarrow> Date_now h \<le> t)"
    then obtain e d tv where e: "getItem (backend st) (getExpirationKey st key) = Some e"
      and d: "JSON_parse e = Inr d" and tv: "new_Date h d = Inr tv"
      and t: "\<forall>t. tv = Some t \<longrightarrow> Date_now h \<le> t"
      by blast
    have "hasExpired h st key = Inr (case tv of None \<Rightarrow> False | Some t \<Rightarrow> t < Date_now h)"
      by (simp add: hasExpired_def e d tv JSON_parse_item_Some)
    moreover have "(case tv of None \<Rightarrow> False | Some t \<Rightarrow> t < Date_now h) = False"
      using t by (cases tv) auto
    ultimately show ?thesis by simp
  qed
  from get_read [OF this] show ?thesis by auto
qed

text \<open>
  At time 5000 the Storage holds \<open>_a\<close> with the JSON text \<open>[1,true]\<close> and an expiration entry
  for this very instant, \<open>_b\<close> with the text \<open>hello\<close> and an expiration entry for a later
  one, and nothing for the key \<open>c\<close>.
\<close>

theorem C7_get_parse_or_raw_witness:
  "get (utc_host 5000 (\<lambda>s. None))
     (initial [(js ''_a'', js ''[1,true]''), (js ''_a_expiration_date'', js ''5000''),
               (js ''_b'', js ''hello''), (js ''_b_expiration_date'', js ''9000'')] []) (js ''a'') =
     Inr (JArray [JNumber (Fin 1 0), JBool True],
          initial [(js ''_a'', js ''[1,true]''), (js ''_a_expiration_date'', js ''5000''),
                   (js ''_b'', js ''hello''), (js ''_b_expiration_date'', js ''9000'')] []) \<and>
   get (utc_host 5000 (\<lambda>s. None))
     (initial [(js ''_a'', js ''[1,true]''), (js ''_a_expiration_date'', js ''5000''),
               (js ''_b'', js ''hello''), (js ''_b_expiration_date'', js ''9000'')] []) (js ''b'') =
     Inr (JString (js ''hello''),
          initial [(js ''_a'', js ''[1,true]''), (js ''_a_expiration_date'', js ''5000''),
                   (js ''_b'', js ''hello''), (js ''_b_expiration_date'', js ''9000'')] []) \<and>
   get (utc_host 5000 (\<lambda>s. None))
     (initial [(js ''_a'', js ''[1,true]''), (js ''_a_expiration_date'', js ''5000''),
               (js ''_b'', js ''hello''), (js ''_b_expiration_date'', js ''9000'')] []) (js ''c'') =
     Inr (JNull,
          initial [(js ''_a'', js ''[1,true]''), (js ''_a_expiration_date'', js ''5000''),
                   (js ''_b'', js ''hello''), (js ''_b_expiration_date'', js ''9000'')] [])"
proof -
  let ?st = "initial [(js ''_a'', js ''[1,true]''), (js ''_a_expiration_date'', js ''5000''),
                      (js ''_b'', js ''hello''), (js ''_b_expiration_date'', js ''9000'')] []"
  let ?h = "utc_host 5000 (\<lambda>s. None)"
  have now: "Date_now ?h = 5000" by (simp add: utc_host_def)
  have ea: "getItem (backend ?st) (getExpirationKey ?st (js ''a'')) = Some (js ''5000'')"
    and eb: "getItem (backend ?st) (getExpirationKey ?st (js ''b'')) = Some (js ''9000'')"
    and ec: "getItem (backend ?st) (getExpirationKey ?st (js ''c'')) = None"
    by (simp_all add: eval_state js_def ch_def)
  have p5: "JSON_parse (js ''5000'') = Inr (JNumber (Fin 5 3))"
    and p9: "JSON_parse (js ''9000'') = Inr (JNumber (Fin 9 3))"
    by (simp_all add: eval_json)
  have d5: "new_Date ?h (JNumber (Fin 5 3)) = Inr (Some 5000)"
    and d9: "new_Date ?h (JNumber (Fin 9 3)) = Inr (Some 9000)"
    by (simp_all add: TimeClip_def truncate_num_def)
  have na: "getItem (backend ?st) (getExpirationKey ?st (js ''a'')) = None \<or>
      (\<exists>e d tv. getItem (backend ?st) (getExpirationKey ?st (js ''a'')) = Some e \<and>
         JSON_parse e = Inr d \<and> new_Date ?h d = Inr tv \<and> (\<forall>t. tv = Some t \<longrightarrow> Date_now ?h \<le> t))"
    using ea p5 d5 now by simp
  have nb: "getItem (backend ?st) (getExpirationKey ?st (js ''b'')) = None \<or>
      (\<exists>e d tv. getItem (backend ?st) (getExpirationKey ?st (js ''b'')) = Some e \<and>
         JSON_parse e = Inr d \<and> new_Date ?h d = Inr tv \<and> (\<forall>t. tv = Some t \<longrightarrow> Date_now ?h \<le> t))"
    using eb p9 d9 now by simp
  have nc: "getItem (backend ?st) (getExpirationKey ?st (js ''c'')) = None \<or>
      (\<exists>e d tv. getItem (backend ?st) (getExpirationKey ?st (js ''c'')) = Some e \<and>
         JSON_parse e = Inr d \<and> new_Date ?h d = Inr tv \<and> (\<forall>t. tv = Some t \<longrightarrow> Date_now ?h \<le> t))"
    using ec by simp
  have a: "getItem (backend ?st) (getFullKey ?st (js ''a'')) = Some (js ''[1,true]'')"
    and b: "getItem (backend ?st) (getFullKey ?st (js ''b'')) = Some (js ''hello'')"
    and c: "getItem (backend ?st) (getFullKey ?st (js ''c'')) = None"
    by (simp_all add: eval_state js_def ch_def)
  have pa: "JSON_parse (js ''[1,true]'') = Inr (JArray [JNumber (Fin 1 0), JBool True])"
    by (simp add: eval_json)
  have pb: "JSON_parse (js ''hello'') = Inl SyntaxError"
    by (simp add: eval_json)
  show ?thesis
    using C7_get_parse_or_raw [OF na] C7_get_parse_or_raw [OF nb] C7_get_parse_or_raw [OF nc]
      a b c pa pb
    by blast
qed

text \<open>
  C7 as stated fails for a key whose expiration entry is not a JSON text. After
  \<open>set("k_expiration_date", "soon")\<close> and \<open>set("k", 1)\<close> the key \<open>k\<close> has the value \<open>1\<close> and
  the expiration entry \<open>soon\<close>, which denotes no instant, past or other; \<open>get("k")\<close> throws
  instead of returning the number 1.
\<close>

theorem C7_unreadable_expiration_counterexample:
  "run [(utc_host 0 (\<lambda>s. None), Set (js ''k_expiration_date'') (JString (js ''soon'')) None),
        (utc_host 0 (\<lambda>s. None), Set (js ''k'') (JNumber (Fin 1 0)) None)] (initial [] []) =
     initial [(js ''_k_expiration_date'', js ''soon''), (js ''_k'', js ''1'')] [] \<and>
   getItem (backend (initial [(js ''_k_expiration_date'', js ''soon''), (js ''_k'', js ''1'')] []))
     (getExpirationKey (initial [(js ''_k_expiration_date'', js ''soon''), (js ''_k'', js ''1'')] []) (js ''k'')) =
     Some (js ''soon'') \<and>
   JSON_parse (js ''soon'') = Inl SyntaxError \<and>
   getItem (backend (initial [(js ''_k_expiration_date'', js ''soon''), (js ''_k'', js ''1'')] []))
     (getFullKey (initial [(js ''_k_expiration_date'', js ''soon''), (js ''_k'', js ''1'')] []) (js ''k'')) =
     Some (js ''1'') \<and>
   JSON_parse (js ''1'') = Inr (JNumber (Fin 1 0)) \<and>
   get (utc_host 0 (\<lambda>s. None)) (initial [(js ''_k_expiration_date'', js ''soon''), (js ''_k'', js ''1'')] []) (js ''k'') =
     Inl SyntaxError"
proof -
  let ?h = "utc_host 0 (\<lambda>s. None)"
  let ?st = "initial [(js ''_k_expiration_date'', js ''soon''), (js ''_k'', js ''1'')] []"
  have s: "stored_text (JNumber (Fin 1 0)) = js ''1''"
    by (simp add: stored_text_def Number_toString_def positive_toString_def Let_def
        digits_of.simps digit_char_def js_def ch_def)
  have k1: "js ''k_expiration_date'' \<noteq> []" and k2: "js ''k'' \<noteq> []" by (simp_all add: js_def)
  have 1: "set_localit ?h (initial [] []) (js ''k_expiration_date'') (JString (js ''soon'')) None =
      Inr (initial [(js ''_k_expiration_date'', js ''soon'')] [])"
    using set_localit_None [OF k1, of ?h "initial [] []" "JString (js ''soon'')"]
    by (simp add: stored_text_def eval_state js_def ch_def)
  have 2: "set_localit ?h (initial [(js ''_k_expiration_date'', js ''soon'')] []) (js ''k'') (JNumber (Fin 1 0)) None =
      Inr ?st"
    using set_localit_None [OF k2, of ?h "initial [(js ''_k_expiration_date'', js ''soon'')] []" "JNumber (Fin 1 0)"]
    by (simp add: s eval_state js_def ch_def)
  have r: "run [(?h, Set (js ''k_expiration_date'') (JString (js ''soon'')) None),
        (?h, Set (js ''k'') (JNumber (Fin 1 0)) None)] (initial [] []) = ?st"
    by (simp add: 1 2)
  have e: "getItem (backend ?st) (getExpirationKey ?st (js ''k'')) = Some (js ''soon'')"
    and v: "getItem (backend ?st) (getFullKey ?st (js ''k'')) = Some (js ''1'')"
    by (simp_all add: eval_state js_def ch_def)
  have pe: "JSON_parse (js ''soon'') = Inl SyntaxError" by (simp add: eval_json)
  have pv: "JSON_parse (js ''1'') = Inr (JNumber (Fin 1 0))" by (simp add: eval_json)
  have x: "hasExpired ?h ?st (js ''k'') = Inl SyntaxError"
    by (simp add: hasExpired_def e pe JSON_parse_item_Some)
  have g: "get ?h ?st (js ''k'') = Inl SyntaxError"
    using e by (simp add: get_def Let_def hasExpirationDate_def x)
  from r e pe v pv g show ?thesis by simp
qed

text \<open>
  C3. When the expiration entry of a key holds a JSON text whose value, as a date, is a
  valid instant strictly before the current time, \<open>get\<close> returns \<open>null\<close> and leaves the state
  that \<open>remove\<close> gives: neither the full key nor the expiration key is in the Storage. A
  later \<open>get\<close>, at any time, answers \<open>null\<close> again, as for a key that was never set.
\<close>

theorem C3_get_expired_removes:
  assumes "getItem (backend st) (getExpirationKey st key) = Some raw"
    and "JSON_parse raw = Inr v"
    and "new_Date h v = Inr (Some t)"
    and "t < Date_now h"
  shows "get h st key = Inr (JNull, remove st key) \<and>
         getItem (backend (remove st key)) (getFullKey st key) = None \<and>
         getItem (backend (remove st key)) (getExpirationKey st key) = None \<and>
         get h' (remove st key) key = Inr (JNull, remove st key)"
proof -
  have e: "hasExpirationDate st key" using assms(1) by (simp add: hasExpirationDate_def)
  have x: "hasExpired h st key = Inr True"
    using assms by (simp add: hasExpired_def JSON_parse_item_Some)
  have 1: "get h st key = Inr (JNull, remove st key)" using e x by (rule get_expired)
  have 2: "getItem (backend (remove st key)) (getFullKey st key) = None"
    "getItem (backend (remove st key)) (getExpirationKey st key) = None"
    by (simp_all add: getItem_remove)
  have "get h' (remove st key) key =
      Inr (case getItem (backend (remove st key)) (getFullKey (remove st key) key) of
             None \<Rightarrow> JNull
           | Some raw \<Rightarrow> (case JSON_parse raw of Inr v \<Rightarrow> v | Inl e \<Rightarrow> JString raw), remove st key)"
    using hasExpirationDate_remove [of st key] by (intro get_read) simp
  then have 3: "get h' (remove st key) key = Inr (JNull, remove st key)"
    using 2(1) by simp
  from 1 2 3 show ?thesis by blast
qed

text \<open>
  The value \<open>hello\<close> of the key \<open>k\<close> expired at time 1000; it is read at time 2000 and again
  at time 500.
\<close>

theorem C3_get_expired_removes_witness:
  "get (utc_host 2000 (\<lambda>s. None)) (initial [(js ''_k'', js ''hello''), (js ''_k_expiration_date'', js ''1000'')] []) (js ''k'') =
     Inr (JNull, initial [] []) \<and>
   get (utc_host 500 (\<lambda>s. None)) (initial [] []) (js ''k'') = Inr (JNull, initial [] [])"
proof -
  let ?st = "initial [(js ''_k'', js ''hello''), (js ''_k_expiration_date'', js ''1000'')] []"
  let ?h = "utc_host 2000 (\<lambda>s. None)"
  have 1: "getItem (backend ?st) (getExpirationKey ?st (js ''k'')) = Some (js ''1000'')"
    by (simp add: eval_state js_def ch_def)
  have 2: "JSON_parse (js ''1000'') = Inr (JNumber (Fin 1 3))"
    by (simp add: eval_json)
  have 3: "new_Date ?h (JNumber (Fin 1 3)) = Inr (Some 1000)"
    by (simp add: TimeClip_def truncate_num_def)
  have 4: "1000 < Date_now ?h" by (simp add: utc_host_def)
  have r: "remove ?st (js ''k'') = initial [] []"
    by (simp add: remove_def Let_def eval_state js_def ch_def)
  show ?thesis
    using C3_get_expired_removes [OF 1 2 3 4, of "utc_host 500 (\<lambda>s. None)"] unfolding r by blast
qed

text \<open>
  C9. \<open>set\<close> without an expiration argument on a key that has an expiration entry writes
  the new value under the full key and leaves the expiration entry as it was, so whether
  the key has expired is decided by the old entry. With any expiration argument, a key
  that had an expiration entry before \<open>set\<close> has one afterwards.
\<close>

theorem C9_set_keeps_expiration:
  assumes "key \<noteq> []"
    and "getItem (backend st) (getExpirationKey st key) = Some x"
  shows "\<exists>st1. set_localit h st key v None = Inr st1 \<and>
           getItem (backend st1) (getFullKey st key) = Some (stored_text v) \<and>
           getItem (backend st1) (getExpirationKey st key) = Some x \<and>
           DOMAIN st1 = DOMAIN st \<and> store st1 = store st \<and>
           hasExpired h' st1 key = hasExpired h' st key \<and>
           (\<forall>e. \<exists>st2. set_localit h st key v e = Inr st2 \<and> hasExpirationDate st2 key)"
proof -
  let ?st1 = "with_backend (\<lambda>S. setItem S (getFullKey st key) (stored_text v)) st"
  have s: "set_localit h st key v None = Inr ?st1" using assms(1) by (rule set_localit_None)
  have f: "getItem (backend ?st1) (getFullKey st key) = Some (stored_text v)"
    by (simp add: getItem_setItem)
  have x: "getItem (backend ?st1) (getExpirationKey st key) = Some x"
    using assms(2) fullKey_neq_expirationKey [of st key] by (simp add: getItem_setItem)
  have hx: "hasExpired h' ?st1 key = hasExpired h' st key"
    using x assms(2) by (intro hasExpired_cong) simp
  have dm: "DOMAIN ?st1 = DOMAIN st" "store ?st1 = store st" by simp_all
  have d: "hasExpirationDate ?st1 key" using x by (simp add: hasExpirationDate_def)
  have all: "\<exists>st2. set_localit h st key v e = Inr st2 \<and> hasExpirationDate st2 key" for e
  proof (cases "e = None \<or> e = Some []")
    case True
    then have "set_localit h st key v e = Inr ?st1"
      using assms(1) by (auto simp: set_localit_def ToString_stored Let_def)
    then show ?thesis using d by blast
  next
    case False
    then obtain spec where e: "e = Some spec" "spec \<noteq> []" by (cases e) auto
    have se: "set_localit h st key v e = setExpiration h ?st1 key spec"
      using assms(1) e by (simp add: set_localit_def ToString_stored Let_def)
    show ?thesis
    proof (cases "accepted spec")
      case True
      then obtain tv where "setExpiration h ?st1 key spec =
          Inr (with_backend (\<lambda>S. setItem S (getExpirationKey ?st1 key) (JSON_stringify (JNumber (number_of_time tv)))) ?st1)"
        using setExpiration_accepted by blast
      moreover have "hasExpirationDate (with_backend (\<lambda>S. setItem S (getExpirationKey ?st1 key) (JSON_stringify (JNumber (number_of_time tv)))) ?st1) key"
        by (simp add: hasExpirationDate_def getItem_setItem)
      ultimately show ?thesis using se by auto
    next
      case False
      then have "setExpiration h ?st1 key spec = Inr (?st1\<lparr>console := console ?st1 @ [ConsoleWarn expiration_warning]\<rparr>)"
        by (rule setExpiration_rejected)
      moreover have "hasExpirationDate (?st1\<lparr>console := console ?st1 @ [ConsoleWarn expiration_warning]\<rparr>) key"
        using d by (simp add: hasExpirationDate_def)
      ultimately show ?thesis using se by auto
    qed
  qed
  from s f x dm hx all show ?thesis by blast
qed

text \<open>
  The key \<open>k\<close> holds \<open>old\<close> and expired at time 1000. After \<open>set("k", "new")\<close> the Storage
  holds \<open>new\<close> with the same expiration entry.
\<close>

theorem C9_set_keeps_expiration_witness:
  "\<exists>st1. set_localit (utc_host 2000 (\<lambda>s. None))
            (initial [(js ''_k'', js ''old''), (js ''_k_expiration_date'', js ''1000'')] [])
            (js ''k'') (JString (js ''new'')) None = Inr st1 \<and>
         getItem (backend st1) (js ''_k'') = Some (js ''new'') \<and>
         getItem (backend st1) (js ''_k_expiration_date'') = Some (js ''1000'')"
proof -
  let ?st = "initial [(js ''_k'', js ''old''), (js ''_k_expiration_date'', js ''1000'')] []"
  let ?h = "utc_host 2000 (\<lambda>s. None)"
  have 1: "js ''k'' \<noteq> []" by (simp add: js_def)
  have 2: "getItem (backend ?st) (getExpirationKey ?st (js ''k'')) = Some (js ''1000'')"
    by (simp add: eval_state js_def ch_def)
  have k: "getFullKey ?st (js ''k'') = js ''_k''" "getExpirationKey ?st (js ''k'') = js ''_k_expiration_date''"
    by (simp_all add: eval_state js_def ch_def)
  have v: "stored_text (JString (js ''new'')) = js ''new''" by (simp add: stored_text_def)
  show ?thesis
    using C9_set_keeps_expiration [OF 1 2, of ?h "JString (js ''new'')" ?h] unfolding k v by blast
qed

text \<open>
  C1, as the code has it. \<open>set(key, v)\<close> followed by \<open>get(key)\<close> returns \<open>v\<close> for every
  non-empty key and every JSON-serialisable \<open>v\<close>, provided that \<open>v\<close> is not a string whose
  text \<open>JSON.parse\<close> accepts, and that the key has no expiration entry that has expired or
  cannot be read when \<open>get\<close> runs. Nested arrays and objects, \<open>false\<close>, \<open>0\<close> and \<open>null\<close> are
  covered; strings inside arrays and objects are unrestricted.
\<close>

theorem C1_set_get_roundtrip:
  assumes "key \<noteq> []"
    and "json_ok v"
    and "\<forall>s. v = JString s \<longrightarrow> JSON_parse s = Inl SyntaxError"
    and "\<not> hasExpirationDate st key \<or> hasExpired h' st key = Inr False"
  shows "set_then_get h h' st key v = Inr v"
proof (cases "\<exists>s. v = JString s")
  case True
  then obtain s where v: "v = JString s" by blast
  with assms(3) have "JSON_parse s = Inl SyntaxError" by blast
  then show ?thesis
    using set_then_get_value [OF assms(1,4), of h v] by (simp add: v stored_text_def)
next
  case False
  then have "stored_text v = JSON_stringify v"
    using assms(2) by (intro stored_text_stringify) auto
  then show ?thesis
    using set_then_get_value [OF assms(1,4), of h v] JSON_roundtrip [OF assms(2)] by simp
qed

text \<open>
  An object with a nested array, \<open>false\<close>, \<open>0\<close> and a string that looks like a number comes
  back as it was; so does the string \<open>hello\<close>.
\<close>

theorem C1_set_get_roundtrip_witness:
  "set_then_get (utc_host 0 (\<lambda>s. None)) (utc_host 5 (\<lambda>s. None)) (initial [] []) (js ''k'')
      (JObject [(js ''a'', JArray [JNumber (Fin 0 0), JBool False]), (js ''b'', JString (js ''1''))]) =
     Inr (JObject [(js ''a'', JArray [JNumber (Fin 0 0), JBool False]), (js ''b'', JString (js ''1''))]) \<and>
   set_then_get (utc_host 0 (\<lambda>s. None)) (utc_host 5 (\<lambda>s. None)) (initial [] []) (js ''k'')
      (JString (js ''hello'')) = Inr (JString (js ''hello''))"
proof -
  let ?v = "JObject [(js ''a'', JArray [JNumber (Fin 0 0), JBool False]), (js ''b'', JString (js ''1''))]"
  have k: "js ''k'' \<noteq> []" by (simp add: js_def)
  have ok: "json_ok ?v" "json_ok (JString (js ''hello''))" by (simp_all add: num_ok_def js_def ch_def)
  have ns: "\<forall>s. ?v = JString s \<longrightarrow> JSON_parse s = Inl SyntaxError" by simp
  have hs: "\<forall>s. JString (js ''hello'') = JString s \<longrightarrow> JSON_parse s = Inl SyntaxError"
    by (simp add: eval_json)
  have e: "\<not> hasExpirationDate (initial [] []) (js ''k'') \<or>
      hasExpired (utc_host 5 (\<lambda>s. None)) (initial [] []) (js ''k'') = Inr False"
    by (simp add: eval_state)
  show ?thesis
    using C1_set_get_roundtrip [OF k ok(1) ns e] C1_set_get_roundtrip [OF k ok(2) hs e] by blast
qed

text \<open>
  C1 as stated fails for a string whose text is a JSON text: the string \<open>1\<close> is stored as
  the text \<open>1\<close> and read back as the number 1.
\<close>

theorem C1_string_counterexample:
  "js ''k'' \<noteq> [] \<and> json_ok (JString (js ''1'')) \<and>
   set_then_get (utc_host 0 (\<lambda>s. None)) (utc_host 0 (\<lambda>s. None)) (initial [] []) (js ''k'') (JString (js ''1''))
     = Inr (JNumber (Fin 1 0)) \<and>
   JNumber (Fin 1 0) \<noteq> JString (js ''1'')"
proof -
  have k: "js ''k'' \<noteq> []" by (simp add: js_def)
  have e: "\<not> hasExpirationDate (initial [] []) (js ''k'') \<or>
      hasExpired (utc_host 0 (\<lambda>s. None)) (initial [] []) (js ''k'') = Inr False"
    by (simp add: eval_state)
  have p: "JSON_parse (js ''1'') = Inr (JNumber (Fin 1 0))" by (simp add: eval_json)
  have "set_then_get (utc_host 0 (\<lambda>s. None)) (utc_host 0 (\<lambda>s. None)) (initial [] []) (js ''k'') (JString (js ''1''))
     = Inr (JNumber (Fin 1 0))"
    using set_then_get_value [OF k e, of "utc_host 0 (\<lambda>s. None)" "JString (js ''1'')"] p
    by (simp add: stored_text_def)
  then show ?thesis using k by simp
qed

text \<open>
  C2, as the code has it. \<open>setExpiration\<close> never throws. For an argument whose last
  character does not occur earlier in it, it writes the expiration entry exactly when
  the argument has at least two characters, ends in one of \<open>s\<close>, \<open>m\<close>, \<open>h\<close>, \<open>d\<close>, and its
  numeric prefix converts, as \<open>Number\<close> does, to something other than \<open>NaN\<close>; otherwise it
  writes nothing, and the console has one more warning. Every argument of one or more
  digits followed by one unit is written; so are others, since \<open>Number\<close> reads more than
  digits.
\<close>

theorem C2_setExpiration_accepts:
  "(last spec \<notin> set (butlast spec) \<longrightarrow>
      (valid_spec spec \<longrightarrow>
         (\<exists>tv. setExpiration h st key spec =
            Inr (with_backend (\<lambda>S. setItem S (getExpirationKey st key)
                   (JSON_stringify (JNumber (number_of_time tv)))) st))) \<and>
      (\<not> valid_spec spec \<longrightarrow>
         setExpiration h st key spec = Inr (st\<lparr>console := console st @ [ConsoleWarn expiration_warning]\<rparr>))) \<and>
   (spec_grammar spec \<longrightarrow> last spec \<notin> set (butlast spec) \<and> valid_spec spec)"
  using setExpiration_accepted [of spec h st key] setExpiration_rejected [of spec h st key]
    spec_grammar_accepted [of spec] spec_grammar_unit_once [of spec] accepted_valid_spec [of spec]
  by blast

text \<open>
  \<open>5s\<close> follows the grammar and is written; \<open>5x\<close> is rejected with a warning.
\<close>

theorem C2_setExpiration_accepts_witness:
  "(\<exists>tv. setExpiration (utc_host 10000 (\<lambda>s. None)) (initial [] []) (js ''k'') (js ''5s'') =
      Inr (with_backend (\<lambda>S. setItem S (getExpirationKey (initial [] []) (js ''k''))
             (JSON_stringify (JNumber (number_of_time tv)))) (initial [] []))) \<and>
   setExpiration (utc_host 10000 (\<lambda>s. None)) (initial [] []) (js ''k'') (js ''5x'') =
      Inr ((initial [] [])\<lparr>console := console (initial [] []) @ [ConsoleWarn expiration_warning]\<rparr>)"
proof -
  have g: "spec_grammar (js ''5s'')"
    by (simp add: spec_grammar_def is_digit_def js_def ch_def)
  have u: "last (js ''5x'') \<notin> set (butlast (js ''5x''))"
    by (simp add: js_def ch_def)
  have r: "\<not> valid_spec (js ''5x'')"
    by (simp add: valid_spec_def js_def ch_def)
  show ?thesis
    using C2_setExpiration_accepts [of "js ''5s''" "utc_host 10000 (\<lambda>s. None)" "initial [] []" "js ''k''"]
      C2_setExpiration_accepts [of "js ''5x''" "utc_host 10000 (\<lambda>s. None)" "initial [] []" "js ''k''"]
      g u r
    by blast
qed

text \<open>
  C2 as stated fails: \<open>-3s\<close> is not one or more digits followed by a unit, and yet, at
  time 10000 in a UTC host, it writes the expiration entry 7000.
\<close>

theorem C2_signed_spec_counterexample:
  "\<not> spec_grammar (js ''-3s'') \<and>
   setExpiration (utc_host 10000 (\<lambda>s. None)) (initial [] []) (js ''k'') (js ''-3s'') =
     Inr (initial [(js ''_k_expiration_date'', js ''7000'')] [])"
proof -
  have g: "\<not> spec_grammar (js ''-3s'')"
    by (simp add: spec_grammar_def is_digit_def js_def ch_def)
  have n: "StringToNumber (js ''-3'') = Fin (- 3) 0"
    by (simp add: StringToNumber_def trim_ws_def is_str_ws_def StrDecimalLiteral_def parse_sign_def
        parse_exp_def Let_def is_digit_def nat_of_digits_def digit_val_def mk_fin.simps js_def ch_def)
  have a: "num_add (mk_fin 10 0) (Fin (- 3) 0) = Fin 7 0"
    by (simp add: mk_fin.simps)
  have t: "set_field 1000 10 10000 (Fin 7 0) = Some 7000"
    by (simp add: set_field_def truncate_num_def TimeClip_def mk_fin.simps)
  have p: "JSON_stringify (JNumber (number_of_time (Some 7000))) = js ''7000''"
    by (simp add: number_of_time_def mk_fin.simps Number_toString_def positive_toString_def Let_def
        digits_of.simps digit_char_def js_def ch_def numeral_3_eq_3)
  have "setExpiration (utc_host 10000 (\<lambda>s. None)) (initial [] []) (js ''k'') (js ''-3s'') =
     Inr (initial [(js ''_k_expiration_date'', js ''7000'')] [])"
    unfolding setExpiration_def Let_def timeFormats_def
    using n a t p
    by (simp add: utc_host_def isNaN_def eval_state js_def ch_def)
  with g show ?thesis by simp
qed

text \<open>
  C4, as the code has it. Start from a state in which both Storage objects satisfy the
  invariant and hold no expiration entry for a key that itself ends in
  \<open>_expiration_date\<close> (empty Storage objects do). After any sequence of public calls in
  which no \<open>set\<close> writes a full key ending in \<open>_expiration_date\<close>, in both Storage objects
  every key that is present with the suffix \<open>_expiration_date\<close> is present without it.
\<close>

theorem C4_expiration_has_value:
  assumes "state_ok st" and "collision_free ops st"
  shows "expiration_invariant (localStorage (run ops st)) \<and>
         expiration_invariant (sessionStorage (run ops st)) \<and>
         expiration_invariant (backend (run ops st))"
proof -
  have ok: "state_ok (run ops st)" using assms by (rule state_ok_run)
  then have "store_ok (localStorage (run ops st))" "store_ok (sessionStorage (run ops st))"
    by (simp_all add: state_ok_def)
  moreover have "store_ok (backend (run ops st))" using ok by (simp add: state_ok_iff)
  ultimately show ?thesis by (simp add: store_ok_invariant)
qed

text \<open>
  From the empty Storage: \<open>set("k", "v", "5s")\<close>, \<open>get("k")\<close> after the expiry,
  \<open>clearDomain()\<close>.
\<close>

theorem C4_expiration_has_value_witness:
  "state_ok (initial [] []) \<and>
   collision_free
     [(utc_host 10000 (\<lambda>s. None), Set (js ''k'') (JString (js ''v'')) (Some (js ''5s''))),
      (utc_host 20000 (\<lambda>s. None), Get (js ''k'')),
      (utc_host 20000 (\<lambda>s. None), ClearDomain None)] (initial [] []) \<and>
   expiration_invariant (backend (run
     [(utc_host 10000 (\<lambda>s. None), Set (js ''k'') (JString (js ''v'')) (Some (js ''5s''))),
      (utc_host 20000 (\<lambda>s. None), Get (js ''k'')),
      (utc_host 20000 (\<lambda>s. None), ClearDomain None)] (initial [] [])))"
proof -
  have ok: "state_ok (initial [] [])"
    by (simp add: state_ok_def initial_def store_ok_empty)
  have k: "\<not> endsWith (getFullKey (initial [] []) (js ''k'')) EXPIRE"
    by (simp add: endsWith_def eval_state js_def ch_def)
  have cf: "collision_free
     [(utc_host 10000 (\<lambda>s. None), Set (js ''k'') (JString (js ''v'')) (Some (js ''5s''))),
      (utc_host 20000 (\<lambda>s. None), Get (js ''k'')),
      (utc_host 20000 (\<lambda>s. None), ClearDomain None)] (initial [] [])"
    using k by simp
  show ?thesis using C4_expiration_has_value [OF ok cf] ok cf by blast
qed

text \<open>
  C4 as stated fails when a key collides with an expiration key: after
  \<open>set("a_expiration_date", 1)\<close> on the empty Storage, the expiration key of \<open>a\<close> is present
  and the full key of \<open>a\<close> is not.
\<close>

theorem C4_collision_counterexample:
  "getItem (backend (run [(utc_host 0 (\<lambda>s. None), Set (js ''a_expiration_date'') (JNumber (Fin 1 0)) None)] (initial [] [])))
     (getExpirationKey (initial [] []) (js ''a'')) = Some (js ''1'') \<and>
   getItem (backend (run [(utc_host 0 (\<lambda>s. None), Set (js ''a_expiration_date'') (JNumber (Fin 1 0)) None)] (initial [] [])))
     (getFullKey (initial [] []) (js ''a'')) = None"
proof -
  have s: "stored_text (JNumber (Fin 1 0)) = js ''1''"
    by (simp add: stored_text_def Number_toString_def positive_toString_def Let_def
        digits_of.simps digit_char_def js_def ch_def)
  have k: "js ''a_expiration_date'' \<noteq> []" by (simp add: js_def)
  have r: "run [(utc_host 0 (\<lambda>s. None), Set (js ''a_expiration_date'') (JNumber (Fin 1 0)) None)] (initial [] []) =
      initial [(js ''_a_expiration_date'', js ''1'')] []"
    using set_localit_None [OF k, of "utc_host 0 (\<lambda>s. None)" "initial [] []" "JNumber (Fin 1 0)"]
    by (simp add: s eval_state js_def ch_def)
  show ?thesis unfolding r by (simp add: eval_state js_def ch_def)
qed

end
